theory Spec2Isabelle
  imports Main "HOL-Library.Word"
begin

section \<open>Configuration\<close>

text \<open>
  \<^verbatim>\<open>FPGAG/constants.py\<close> and the platform object are not part of the sources, so every
  constant that \<^verbatim>\<open>core.py\<close> imports from them is a field of the record below, together
  with the platform attributes (\<^verbatim>\<open>motors\<close>, \<^verbatim>\<open>bytesinmove\<close>) and the \<^verbatim>\<open>divider\<close> argument
  of the constructors.  \<^verbatim>\<open>DEGREE\<close> is fixed to 3 by the assertion in
  \<^verbatim>\<open>Polynomal.__init__\<close>.
\<close>

record settings =
  WORD_BYTES :: nat
  MEMWIDTH :: nat
  BIT_SHIFT :: nat
  MOVE_TICKS :: nat
  STATE_PARSING :: nat
  STATE_FULL :: nat
  STATE_DISPATCHERROR :: nat
  INSTRUCTIONS_MOVE :: nat
  COMMANDS_EMPTY :: nat
  COMMANDS_START :: nat
  COMMANDS_STOP :: nat
  COMMANDS_WRITE :: nat
  COMMANDS_READ :: nat
  COMMANDS_POSITION :: nat
  motors :: nat
  bytesinmove :: nat
  divider :: nat

definition order :: nat where
  "order = 3"

section \<open>Signal shapes\<close>

text \<open>Python's \<^verbatim>\<open>int.bit_length()\<close> on a non-negative integer.\<close>

fun bit_length :: "nat \<Rightarrow> nat" where
  "bit_length n = (if n = 0 then 0 else Suc (bit_length (n div 2)))"

declare bit_length.simps [simp del]

text \<open>
  The width of \<^verbatim>\<open>Signal(range(n))\<close>: enough bits for \<open>0\<close> and for \<open>n - 1\<close>, at least
  one bit unless the range is empty.
\<close>

definition range_width :: "nat \<Rightarrow> nat" where
  "range_width n = (if n = 0 then 0 else max 1 (bit_length (n - 1)))"

text \<open>
  An assignment to a signal keeps the low bits of the value: \<open>take_bit w\<close> for an
  unsigned signal of \<open>w\<close> bits, \<open>signed_take_bit (w - 1)\<close> for \<^verbatim>\<open>signed(w)\<close>.
  Expressions themselves are computed without overflow.
\<close>

definition max_steps :: "settings \<Rightarrow> nat" where
  "max_steps k = MOVE_TICKS k div 2"

definition max_bits :: "settings \<Rightarrow> nat" where
  "max_bits k = bit_length (push_bit (BIT_SHIFT k) (max_steps k))"

definition ticks_width :: "settings \<Rightarrow> nat" where
  "ticks_width k = bit_length (MOVE_TICKS k)"

section \<open>The polynomial integrator (class Polynomal)\<close>

datatype polynomen = POL_RESET | WAIT_START | RUNNING

record polynomal =
  polynomen_state :: polynomen
  coeff :: "int list"
  start :: bool
  ticklimit :: nat
  busy :: bool
  finished :: bool
  dir :: "bool list"
  cntr :: nat
  cntrs :: "int list"
  ticks :: nat
  counter_d :: "int list"

text \<open>The combinational outputs \<^verbatim>\<open>step[motor]\<close> and \<^verbatim>\<open>totalsteps[motor]\<close>.\<close>

definition step :: "settings \<Rightarrow> polynomal \<Rightarrow> nat \<Rightarrow> bool" where
  "step k s motor = bit (cntrs s ! (motor * order)) (BIT_SHIFT k)"

definition totalsteps :: "settings \<Rightarrow> polynomal \<Rightarrow> nat \<Rightarrow> int" where
  "totalsteps k s motor =
     signed_take_bit (bit_length (max_steps k))
       (drop_bit (BIT_SHIFT k + 1) (cntrs s ! (motor * order)))"

text \<open>The direction block that runs on every clock edge, for one motor.\<close>

definition direction :: "polynomal \<Rightarrow> bool list \<Rightarrow> nat \<Rightarrow> bool list" where
  "direction s acc motor =
     (if counter_d s ! motor > cntrs s ! (motor * order) then acc[motor := False]
      else if counter_d s ! motor < cntrs s ! (motor * order) then acc[motor := True]
      else acc)"

definition delay :: "polynomal \<Rightarrow> int list \<Rightarrow> nat \<Rightarrow> int list" where
  "delay s acc motor = acc[motor := cntrs s ! (motor * order)]"

text \<open>The assignments of \<^verbatim>\<open>WAIT_START\<close> on \<^verbatim>\<open>start\<close>, for one motor.\<close>

definition clear_cntrs :: "int list \<Rightarrow> nat \<Rightarrow> int list" where
  "clear_cntrs acc motor = (let coef0 = motor * order in acc[coef0 := 0])"

definition clear_counter_d :: "int list \<Rightarrow> nat \<Rightarrow> int list" where
  "clear_counter_d acc motor = acc[motor := 0]"

text \<open>
  The assignments of one real-time tick in \<^verbatim>\<open>RUNNING\<close>, for one motor.  The right-hand
  sides read the counters \<open>old\<close> of before the clock edge.
\<close>

definition advance :: "settings \<Rightarrow> int list \<Rightarrow> int list \<Rightarrow> int list \<Rightarrow> nat \<Rightarrow> int list" where
  "advance k cf old acc motor =
     (let idx = motor * order;
          op3 = 3 * 2 * cf ! (idx + 2) + old ! (idx + 2);
          op2 = old ! (idx + 2) + 2 * cf ! (idx + 1) + old ! (idx + 1);
          op1 = cf ! (idx + 2) + cf ! (idx + 1) + cf ! idx
                + old ! (idx + 2) + old ! (idx + 1) + old ! idx
      in acc[idx + 2 := signed_take_bit (max_bits k) op3,
             idx + 1 := signed_take_bit (max_bits k) op2,
             idx := signed_take_bit (max_bits k) op1])"

text \<open>One clock edge of the integrator.\<close>

definition polynomal_step :: "settings \<Rightarrow> polynomal \<Rightarrow> polynomal" where
  "polynomal_step k s =
     (let s1 = s\<lparr>counter_d := foldl (delay s) (counter_d s) [0..<motors k],
                 dir := foldl (direction s) (dir s) [0..<motors k]\<rparr>
      in case polynomen_state s of
           POL_RESET \<Rightarrow> s1\<lparr>polynomen_state := WAIT_START, busy := False, finished := False\<rparr>
         | WAIT_START \<Rightarrow>
             if start s
             then s1\<lparr>cntrs := foldl clear_cntrs (cntrs s) [0..<motors k],
                     counter_d := foldl clear_counter_d (counter_d s1) [0..<motors k],
                     busy := True, finished := False, polynomen_state := RUNNING\<rparr>
             else s1\<lparr>finished := False\<rparr>
         | RUNNING \<Rightarrow>
             if ticks s < ticklimit s \<and> int (cntr s) \<ge> int (divider k) - 1
             then s1\<lparr>ticks := take_bit (ticks_width k) (ticks s + 1),
                     cntr := 0,
                     cntrs := foldl (advance k (coeff s) (cntrs s)) (cntrs s) [0..<motors k]\<rparr>
             else if ticks s < ticklimit s
             then s1\<lparr>cntr := take_bit (range_width (divider k)) (cntr s + 1)\<rparr>
             else s1\<lparr>ticks := 0, busy := False, finished := True,
                     polynomen_state := WAIT_START\<rparr>)"

text \<open>
  The integrator after \<open>n\<close> clock edges, its inputs \<^verbatim>\<open>start\<close>, \<^verbatim>\<open>ticklimit\<close> and
  \<^verbatim>\<open>coeff\<close> held as they are in the record.
\<close>

fun polynomal_run :: "settings \<Rightarrow> nat \<Rightarrow> polynomal \<Rightarrow> polynomal" where
  "polynomal_run k 0 s = s"
| "polynomal_run k (Suc n) s = polynomal_run k n (polynomal_step k s)"

text \<open>
  The polynomial of the specification, \<open>a\<cdot>x + b\<cdot>x\<^sup>2 + c\<cdot>x\<^sup>3\<close>, against which the counters
  are compared.
\<close>

definition cubic :: "int \<Rightarrow> int \<Rightarrow> int \<Rightarrow> nat \<Rightarrow> int" where
  "cubic a b c x = a * int x + b * int x ^ 2 + c * int x ^ 3"

text \<open>Every register of the integrator after reset.\<close>

definition polynomal_reset :: "settings \<Rightarrow> polynomal" where
  "polynomal_reset k =
     \<lparr>polynomen_state = POL_RESET, coeff = replicate (motors k * order) 0, start = False,
      ticklimit = 0, busy = False, finished = False, dir = replicate (motors k) False,
      cntr = 0, cntrs = replicate (motors k * order) 0, ticks = 0,
      counter_d = replicate (motors k) 0\<rparr>"

section \<open>The command processor (class SPIParser)\<close>

text \<open>
  The SPI command interface and the transactional FIFO are components of the luna
  library.  What they present to the parser and the dispatcher at one clock edge, and the
  limit switches of the steppers, are the inputs of a step.
\<close>

record wires =
  command_ready :: bool
  command :: nat
  word_complete :: bool
  word_received :: nat
  space_available :: nat
  fifo_empty :: bool
  read_data :: nat
  limit :: "bool list"

datatype parser_fsm = PARSER_RESET | WAIT_COMMAND | WAIT_WORD | WRITE

record spiparser =
  position :: "int list"
  pinstate :: "8 word"
  read_commit :: bool
  read_en :: bool
  dispatcherror :: bool
  execute :: bool
  state :: "8 word"
  mtrcntr :: nat
  bytesreceived :: nat
  parser_state :: parser_fsm
  word_to_send :: nat
  write_en :: bool
  write_data :: nat
  write_commit :: bool

text \<open>Assignment to one bit of an 8-bit signal.\<close>

definition assign_bit :: "nat \<Rightarrow> bool \<Rightarrow> 8 word \<Rightarrow> 8 word" where
  "assign_bit n b w = (if b then set_bit n w else unset_bit n w)"

text \<open>
  \<^verbatim>\<open>ceil(platform.bytesinmove/WORD_BYTES)\<close>, for \<^verbatim>\<open>WORD_BYTES\<close> above zero (Python raises on
  a division by zero when the design is built).
\<close>

definition words_in_move :: "settings \<Rightarrow> nat" where
  "words_in_move k = (bytesinmove k + WORD_BYTES k - 1) div WORD_BYTES k"

text \<open>
  The status register, written on every clock edge; of two assignments to the same bit
  the later one takes effect.
\<close>

definition status :: "settings \<Rightarrow> wires \<Rightarrow> spiparser \<Rightarrow> 8 word" where
  "status k i s =
     assign_bit (STATE_DISPATCHERROR k) (dispatcherror s)
       (assign_bit (STATE_FULL k) (space_available i < words_in_move k)
          (assign_bit (STATE_PARSING k) (execute s) (state s)))"

text \<open>\<^verbatim>\<open>Cat(lo, hi)\<close> places its first argument in the low-order bits.\<close>

definition Cat :: "8 word \<Rightarrow> 8 word \<Rightarrow> 16 word" where
  "Cat lo hi = word_cat hi lo"

text \<open>\<^verbatim>\<open>word = Cat(state[::-1], self.pinstate[::-1])\<close>\<close>

definition reply_word :: "spiparser \<Rightarrow> 16 word" where
  "reply_word s = Cat (word_reverse (state s)) (word_reverse (pinstate s))"

text \<open>
  Reading an \<^verbatim>\<open>Array\<close> with a signal as index: an index past the end selects the last
  element.
\<close>

definition array_read :: "'a list \<Rightarrow> nat \<Rightarrow> 'a" where
  "array_read xs i = xs ! min i (length xs - 1)"

text \<open>One clock edge of the parser.\<close>

definition spiparser_step :: "settings \<Rightarrow> wires \<Rightarrow> spiparser \<Rightarrow> spiparser" where
  "spiparser_step k i s =
     (let s1 = s\<lparr>state := status k i s\<rparr>
      in case parser_state s of
           PARSER_RESET \<Rightarrow> s1\<lparr>execute := False, bytesreceived := 0, parser_state := WAIT_COMMAND\<rparr>
         | WAIT_COMMAND \<Rightarrow>
             (let s2 = s1\<lparr>write_commit := False\<rparr>;
                  word = take_bit (WORD_BYTES k * 8) (unat (reply_word s))
              in if command_ready i
                 then if command i = COMMANDS_EMPTY k then s2\<lparr>parser_state := WAIT_COMMAND\<rparr>
                   else if command i = COMMANDS_START k
                   then s2\<lparr>parser_state := WAIT_COMMAND, execute := True\<rparr>
                   else if command i = COMMANDS_STOP k
                   then s2\<lparr>parser_state := WAIT_COMMAND, execute := False\<rparr>
                   else if command i = COMMANDS_WRITE k
                   then (if \<not> bit (state s) (STATE_FULL k) \<or> bytesreceived s \<noteq> 0
                         then s2\<lparr>word_to_send := word, parser_state := WAIT_WORD\<rparr>
                         else s2\<lparr>word_to_send := word, parser_state := WAIT_COMMAND\<rparr>)
                   else if command i = COMMANDS_READ k
                   then s2\<lparr>word_to_send := word, parser_state := WAIT_COMMAND\<rparr>
                   else if command i = COMMANDS_POSITION k
                   then s2\<lparr>mtrcntr := (if mtrcntr s < motors k
                                       then take_bit (range_width (motors k)) (mtrcntr s + 1)
                                       else 0),
                           word_to_send :=
                             nat (take_bit (WORD_BYTES k * 8) (array_read (position s) (mtrcntr s))),
                           parser_state := WAIT_COMMAND\<rparr>
                   else s2
                 else s2)
         | WAIT_WORD \<Rightarrow>
             if word_complete i
             then s1\<lparr>write_en := True,
                     bytesreceived :=
                       take_bit (range_width (bytesinmove k + 1)) (bytesreceived s + WORD_BYTES k),
                     write_data := take_bit (MEMWIDTH k) (word_received i),
                     parser_state := WRITE\<rparr>
             else s1
         | WRITE \<Rightarrow>
             (let s2 = s1\<lparr>write_en := False, parser_state := WAIT_COMMAND\<rparr>
              in if bytesreceived s \<ge> bytesinmove k
                 then s2\<lparr>bytesreceived := 0, write_commit := True\<rparr>
                 else s2))"

fun spiparser_run :: "settings \<Rightarrow> wires list \<Rightarrow> spiparser \<Rightarrow> spiparser" where
  "spiparser_run k [] s = s"
| "spiparser_run k (i # is) s = spiparser_run k is (spiparser_step k i s)"

text \<open>Every register of the parser after reset.\<close>

definition spiparser_reset :: "settings \<Rightarrow> spiparser" where
  "spiparser_reset k =
     \<lparr>position = replicate (motors k) 0, pinstate = 0, read_commit = False, read_en = False,
      dispatcherror = False, execute = False, state = 0, mtrcntr = 0, bytesreceived = 0,
      parser_state = PARSER_RESET, word_to_send = 0, write_en = False, write_data = 0,
      write_commit = False\<rparr>"

text \<open>
  The states the parser reaches from reset, whatever the SPI interface and the FIFO
  present to it and whatever is driven onto the signals it only reads.
\<close>

inductive parser_reachable :: "settings \<Rightarrow> spiparser \<Rightarrow> bool" for k where
  parser_start: "parser_reachable k (spiparser_reset k)"
| parser_next: "parser_reachable k s \<Longrightarrow> parser_reachable k (spiparser_step k i s)"
| parser_driven:
    "parser_reachable k s \<Longrightarrow>
     parser_reachable k
       (s\<lparr>position := ps, pinstate := pn, read_commit := rc, read_en := re,
          dispatcherror := de\<rparr>)"

section \<open>The dispatcher (class Dispatcher)\<close>

datatype dispatcher_fsm = DISPATCHER_RESET | WAIT_INSTRUCTION | PARSEHEAD | MOVE_POLYNOMAL | ERROR

record dispatcher =
  parser :: spiparser
  pol :: polynomal
  pol_finished_d :: bool
  coeffcnt :: nat
  dispatcher_state :: dispatcher_fsm

text \<open>The limit switches drive the low bits of \<^verbatim>\<open>parser.pinstate\<close>.\<close>

definition pins :: "bool list \<Rightarrow> 8 word" where
  "pins ls = foldl (\<lambda>w idx. assign_bit idx (ls ! idx) w) 0 [0..<length ls]"

text \<open>What reaches the step pin of stepper \<open>idx\<close>.\<close>

definition stepper_step :: "settings \<Rightarrow> wires \<Rightarrow> dispatcher \<Rightarrow> nat \<Rightarrow> bool" where
  "stepper_step k i d idx = (step k (pol d) idx \<and> \<not> limit i ! idx)"

text \<open>The position adder, for one axis.\<close>

definition add_steps :: "settings \<Rightarrow> spiparser \<Rightarrow> polynomal \<Rightarrow> int list \<Rightarrow> nat \<Rightarrow> int list" where
  "add_steps k p q acc idx = acc[idx := signed_take_bit 63 (position p ! idx + totalsteps k q idx)]"

text \<open>
  One clock edge of the whole design: the parser and the integrator take their own step
  from the values of before the edge, and the dispatcher writes the signals it drives.
\<close>

definition dispatcher_step :: "settings \<Rightarrow> wires \<Rightarrow> dispatcher \<Rightarrow> dispatcher" where
  "dispatcher_step k i d =
     (let p = (parser d)\<lparr>pinstate := pins (limit i)\<rparr>;
          q = pol d;
          p1 = spiparser_step k i p;
          q1 = polynomal_step k q;
          p2 = (if \<not> pol_finished_d d \<and> finished q
                then p1\<lparr>position := foldl (add_steps k p q) (position p) [0..<length (position p)]\<rparr>
                else p1);
          d1 = d\<lparr>pol_finished_d := finished q\<rparr>
      in case dispatcher_state d of
           DISPATCHER_RESET \<Rightarrow> d1\<lparr>parser := p2, pol := q1, dispatcher_state := WAIT_INSTRUCTION\<rparr>
         | WAIT_INSTRUCTION \<Rightarrow>
             if \<not> fifo_empty i \<and> execute p \<and> \<not> busy q
             then d1\<lparr>parser := p2\<lparr>read_commit := False, read_en := True\<rparr>,
                     pol := q1\<lparr>start := False\<rparr>,
                     dispatcher_state := PARSEHEAD\<rparr>
             else d1\<lparr>parser := p2\<lparr>read_commit := False\<rparr>, pol := q1\<lparr>start := False\<rparr>\<rparr>
         | PARSEHEAD \<Rightarrow>
             if take_bit 8 (read_data i) = INSTRUCTIONS_MOVE k
             then d1\<lparr>pol := q1\<lparr>ticklimit := take_bit (ticks_width k) (drop_bit 8 (read_data i))\<rparr>,
                     parser := p2\<lparr>read_en := False\<rparr>,
                     coeffcnt := 0,
                     dispatcher_state := MOVE_POLYNOMAL\<rparr>
             else d1\<lparr>parser := p2\<lparr>dispatcherror := True\<rparr>, pol := q1,
                     dispatcher_state := ERROR\<rparr>
         | MOVE_POLYNOMAL \<Rightarrow>
             if \<not> read_en p
             then d1\<lparr>parser := p2\<lparr>read_en := True\<rparr>, pol := q1\<rparr>
             else if coeffcnt d < length (coeff q)
             then d1\<lparr>pol := q1\<lparr>coeff := (coeff q)[coeffcnt d :=
                                         signed_take_bit 63 (int (read_data i))]\<rparr>,
                     coeffcnt := take_bit (range_width (length (coeff q))) (coeffcnt d + 1),
                     parser := p2\<lparr>read_en := False\<rparr>\<rparr>
             else d1\<lparr>pol := q1\<lparr>start := True\<rparr>,
                     parser := p2\<lparr>read_commit := True, read_en := False\<rparr>,
                     dispatcher_state := WAIT_INSTRUCTION\<rparr>
         | ERROR \<Rightarrow> d1\<lparr>parser := p2, pol := q1, dispatcher_state := ERROR\<rparr>)"

fun dispatcher_run :: "settings \<Rightarrow> wires list \<Rightarrow> dispatcher \<Rightarrow> dispatcher" where
  "dispatcher_run k [] d = d"
| "dispatcher_run k (i # is) d = dispatcher_run k is (dispatcher_step k i d)"

definition dispatcher_reset :: "settings \<Rightarrow> dispatcher" where
  "dispatcher_reset k =
     \<lparr>parser = spiparser_reset k, pol = polynomal_reset k, pol_finished_d = False,
      coeffcnt = 0, dispatcher_state = DISPATCHER_RESET\<rparr>"

text \<open>The states of the design that some input sequence reaches from reset.\<close>

inductive reachable :: "settings \<Rightarrow> dispatcher \<Rightarrow> bool" for k where
  start_state: "reachable k (dispatcher_reset k)"
| next_state: "reachable k d \<Longrightarrow> reachable k (dispatcher_step k i d)"

section \<open>An example configuration\<close>

text \<open>
  Three axes, 64-bit words and a move of one header word and nine coefficient words; the
  status bits are numbered as the specification lists them.
\<close>

definition example :: settings where
  "example =
     \<lparr>WORD_BYTES = 8, MEMWIDTH = 64, BIT_SHIFT = 40, MOVE_TICKS = 10000,
      STATE_PARSING = 0, STATE_FULL = 1, STATE_DISPATCHERROR = 2, INSTRUCTIONS_MOVE = 1,
      COMMANDS_EMPTY = 0, COMMANDS_START = 4, COMMANDS_STOP = 5, COMMANDS_WRITE = 1,
      COMMANDS_READ = 2, COMMANDS_POSITION = 3, motors = 3, bytesinmove = 80, divider = 50\<rparr>"

text \<open>
  The integrator as it enters \<^verbatim>\<open>RUNNING\<close> for the first move after reset: two clock edges
  with \<^verbatim>\<open>start\<close> raised, a tick limit of 4 and \<open>a = 2\<^sup>4\<^sup>1\<close> on the first axis (one step
  per tick).
\<close>

definition first_move :: polynomal where
  "first_move =
     polynomal_run example 2
       ((polynomal_reset example)\<lparr>start := True, ticklimit := 4,
          coeff := [2 ^ 41, 0, 0, 0, 0, 0, 0, 0, 0]\<rparr>)"

text \<open>
  Two moves one after the other, with a prescaler of one clock edge per tick.  The first
  move has \<open>b = 1\<close> on the first axis and a tick limit of 1; \<open>second_start\<close> is the
  integrator in \<^verbatim>\<open>WAIT_START\<close> when that move is over and the coefficients of the second
  move (\<open>a = 1\<close>) are loaded, \<open>second_move\<close> the state one clock edge later.
\<close>

definition fast :: settings where
  "fast = example\<lparr>divider := 1\<rparr>"

definition second_start :: polynomal where
  "second_start =
     (polynomal_run fast 4
        ((polynomal_reset fast)\<lparr>start := True, ticklimit := 1,
           coeff := [0, 1, 0, 0, 0, 0, 0, 0, 0]\<rparr>))
     \<lparr>coeff := [1, 0, 0, 0, 0, 0, 0, 0, 0]\<rparr>"

definition second_move :: polynomal where
  "second_move = polynomal_step fast second_start"

text \<open>
  A move of four ticks with \<open>a = 2\<^sup>3\<^sup>9\<close> on the first axis, half a step per tick, as it
  enters \<^verbatim>\<open>RUNNING\<close> after reset.
\<close>

definition slow_move :: polynomal where
  "slow_move =
     polynomal_run fast 2
       ((polynomal_reset fast)\<lparr>start := True, ticklimit := 4,
          coeff := [2 ^ 39, 0, 0, 0, 0, 0, 0, 0, 0]\<rparr>)"

text \<open>
  Inputs of one clock edge: nothing happening, a command byte, a completed payload word.
  The queue reports room for 512 words unless said otherwise.
\<close>

definition idle :: wires where
  "idle =
     \<lparr>command_ready = False, command = 0, word_complete = False, word_received = 0,
      space_available = 512, fifo_empty = True, read_data = 0,
      limit = [False, False, False]\<rparr>"

definition command_in :: "nat \<Rightarrow> wires" where
  "command_in c = idle\<lparr>command_ready := True, command := c\<rparr>"

definition word_in :: "nat \<Rightarrow> wires" where
  "word_in w = idle\<lparr>word_complete := True, word_received := w\<rparr>"

text \<open>One payload word written to the queue: the command, the word, the write state.\<close>

definition write_word :: "nat \<Rightarrow> wires list" where
  "write_word w = [command_in (COMMANDS_WRITE example), word_in w, idle]"

text \<open>The parser after reset and one payload word, a move of ten words being incomplete.\<close>

definition partial_write :: spiparser where
  "partial_write = spiparser_run example (idle # write_word 7) (spiparser_reset example)"

text \<open>
  The parser waiting for a command with the \<^verbatim>\<open>FULL\<close> bit set: the queue has reported
  room for nine words only.
\<close>

definition full_queue :: spiparser where
  "full_queue =
     spiparser_run example [idle, idle\<lparr>space_available := 9\<rparr>] (spiparser_reset example)"

text \<open>
  The parser in \<^verbatim>\<open>WRITE\<close> after the tenth payload word of a move.
\<close>

definition last_word :: spiparser where
  "last_word =
     spiparser_run example
       (idle # concat (replicate 9 (write_word 7))
        @ [command_in (COMMANDS_WRITE example), word_in 7])
       (spiparser_reset example)"

text \<open>The parser after reset, a \<^verbatim>\<open>START\<close> command and one more clock edge.\<close>

definition started :: spiparser where
  "started =
     spiparser_run example [idle, command_in (COMMANDS_START example), idle]
       (spiparser_reset example)"

text \<open>The parser out of reset with the axes at 10, 20 and 30.\<close>

definition placed :: spiparser where
  "placed = spiparser_step example idle ((spiparser_reset example)\<lparr>position := [10, 20, 30]\<rparr>)"

definition position_query :: wires where
  "position_query = command_in (COMMANDS_POSITION example)"

text \<open>
  The whole design with the dispatcher in \<^verbatim>\<open>PARSEHEAD\<close>: after reset a \<^verbatim>\<open>START\<close> command
  has been received and the queue has reported that it is not empty.
\<close>

definition queued :: wires where
  "queued = idle\<lparr>fifo_empty := False\<rparr>"

definition parsing :: dispatcher where
  "parsing =
     dispatcher_run example [idle, command_in (COMMANDS_START example), queued]
       (dispatcher_reset example)"

text \<open>
  Words the queue presents: a header with opcode 0, which is no instruction; the header
  of a move of four ticks; a coefficient word.
\<close>

definition bad_header :: wires where
  "bad_header = queued\<lparr>read_data := 0\<rparr>"

definition move_header :: wires where
  "move_header = queued\<lparr>read_data := INSTRUCTIONS_MOVE example + 256 * 4\<rparr>"

definition coefficient :: "nat \<Rightarrow> wires" where
  "coefficient c = queued\<lparr>read_data := c\<rparr>"

text \<open>
  The design after the header of a move and its nine coefficient words, read enable
  raised once more: the clock edge that follows ends the instruction.
\<close>

definition loaded :: dispatcher where
  "loaded =
     dispatcher_run example
       (move_header # concat (replicate 9 [queued, coefficient 5]) @ [queued])
       parsing"

section \<open>Lists that are assigned element by element\<close>

lemma nth_upd: "xs[i := x] ! j = (if i = j \<and> i < length xs then x else xs ! j)"
  by (cases "i < length xs") (simp_all add: nth_list_update list_update_beyond)

lemma less_exp_bit_length: "n < 2 ^ bit_length n"
proof (induction n rule: bit_length.induct)
  case (1 n)
  show ?case
  proof (cases "n = 0")
    case True then show ?thesis by (simp add: bit_length.simps)
  next
    case False
    with 1 have "n div 2 < 2 ^ bit_length (n div 2)" by simp
    then have "n < 2 * 2 ^ bit_length (n div 2)" by linarith
    with False show ?thesis by (simp add: bit_length.simps [of n])
  qed
qed

lemma pred_less_exp_range_width: "0 < d \<Longrightarrow> d - 1 < 2 ^ range_width d"
proof -
  assume "0 < d"
  have "d - 1 < 2 ^ bit_length (d - 1)" by (rule less_exp_bit_length)
  also have "\<dots> \<le> 2 ^ max 1 (bit_length (d - 1))" by (rule power_increasing) simp_all
  finally show ?thesis using \<open>0 < d\<close> by (simp add: range_width_def)
qed

lemma length_advance [simp]: "length (advance k cf old acc m) = length acc"
  by (simp add: advance_def Let_def)

lemma length_foldl_advance [simp]:
  "length (foldl (advance k cf old) acc ms) = length acc"
  by (induction ms arbitrary: acc) simp_all

lemma nth_advance_other:
  "i < m * 3 \<or> m * 3 + 3 \<le> i \<Longrightarrow> advance k cf old acc m ! i = acc ! i"
  by (auto simp add: advance_def Let_def order_def)

lemma advance_cong:
  "length acc = length acc' \<Longrightarrow> acc ! i = acc' ! i \<Longrightarrow>
   advance k cf old acc m ! i = advance k cf old acc' m ! i"
  by (simp add: advance_def Let_def nth_upd)

lemma nth_foldl_advance_ge:
  "n * 3 \<le> i \<Longrightarrow> foldl (advance k cf old) acc [0..<n] ! i = acc ! i"
  by (induction n) (simp_all add: nth_advance_other)

lemma nth_foldl_advance:
  assumes "m < n" "j < 3"
  shows "foldl (advance k cf old) acc [0..<n] ! (m * 3 + j) =
         advance k cf old acc m ! (m * 3 + j)"
  using assms
proof (induction n)
  case 0 then show ?case by simp
next
  case (Suc n)
  show ?case
  proof (cases "m = n")
    case True
    have "advance k cf old (foldl (advance k cf old) acc [0..<n]) n ! (n * 3 + j) =
        advance k cf old acc n ! (n * 3 + j)"
      by (rule advance_cong) (simp_all add: nth_foldl_advance_ge)
    with True show ?thesis by simp
  next
    case False
    then show ?thesis using Suc
      by (simp add: nth_advance_other)
  qed
qed

text \<open>The three counters of one motor after a real-time tick.\<close>

lemma advance_counters:
  assumes "m < n" "m * 3 + 2 < length old"
  shows "foldl (advance k cf old) old [0..<n] ! (m * 3) =
           signed_take_bit (max_bits k)
             (cf ! (m * 3 + 2) + cf ! (m * 3 + 1) + cf ! (m * 3)
              + old ! (m * 3 + 2) + old ! (m * 3 + 1) + old ! (m * 3))"
    and "foldl (advance k cf old) old [0..<n] ! (m * 3 + 1) =
           signed_take_bit (max_bits k)
             (old ! (m * 3 + 2) + 2 * cf ! (m * 3 + 1) + old ! (m * 3 + 1))"
    and "foldl (advance k cf old) old [0..<n] ! (m * 3 + 2) =
           signed_take_bit (max_bits k) (6 * cf ! (m * 3 + 2) + old ! (m * 3 + 2))"
  using assms nth_foldl_advance [of m n 0 k cf old old]
    nth_foldl_advance [of m n 1 k cf old old] nth_foldl_advance [of m n 2 k cf old old]
  by (simp_all add: advance_def Let_def order_def nth_upd)

lemma stb_add_right: "signed_take_bit n (x + signed_take_bit n y) = signed_take_bit n (x + y)"
  for x y :: int
  using signed_take_bit_add [of n x "signed_take_bit n y"] signed_take_bit_add [of n x y]
  by simp

lemma stb_add_left: "signed_take_bit n (signed_take_bit n x + y) = signed_take_bit n (x + y)"
  for x y :: int
  using stb_add_right [of n y x] by (simp add: add.commute)

lemma stb_cong:
  "signed_take_bit n x = signed_take_bit n x' \<Longrightarrow> signed_take_bit n y = signed_take_bit n y' \<Longrightarrow>
   signed_take_bit n (x + y) = signed_take_bit n (x' + y')"
  for x y :: int
  using signed_take_bit_add [of n x y] signed_take_bit_add [of n x' y'] by simp

lemma stb_sum3:
  "signed_take_bit n (x + signed_take_bit n u + signed_take_bit n v + signed_take_bit n w) =
   signed_take_bit n (x + u + v + w)"
  for x :: int
  by (intro stb_cong) simp_all

lemma stb_sum2:
  "signed_take_bit n (signed_take_bit n u + x + signed_take_bit n v) =
   signed_take_bit n (u + x + v)"
  for x :: int
  by (intro stb_cong) simp_all

lemma cubic_Suc:
  "cubic a b c (Suc n) =
     c + b + a + 6 * c * int n + (3 * c * int n * (int n - 1) + 2 * b * int n) + cubic a b c n"
  by (simp add: cubic_def power2_eq_square power3_eq_cube algebra_simps)


lemma polynomal_run_add:
  "polynomal_run k (m + n) s = polynomal_run k n (polynomal_run k m s)"
  by (induction m arbitrary: s) simp_all

lemma polynomal_run_Suc_right:
  "polynomal_run k (Suc n) s = polynomal_step k (polynomal_run k n s)"
  using polynomal_run_add [of k n 1 s] by simp

lemma running_count:
  assumes "polynomen_state s = RUNNING" "ticks s < ticklimit s" "Suc (cntr s) < divider k"
  shows "polynomal_step k s =
           s\<lparr>counter_d := foldl (delay s) (counter_d s) [0..<motors k],
             dir := foldl (direction s) (dir s) [0..<motors k],
             cntr := Suc (cntr s)\<rparr>"
proof -
  from assms(3) have "Suc (cntr s) \<le> divider k - 1" by simp
  also have "\<dots> < 2 ^ range_width (divider k)"
    using assms(3) by (intro pred_less_exp_range_width) simp
  finally have "take_bit (range_width (divider k)) (Suc (cntr s)) = Suc (cntr s)"
    by (simp add: take_bit_nat_eq_self)
  with assms show ?thesis
    by (simp add: polynomal_step_def Let_def)
qed

lemma running_tick:
  assumes "polynomen_state s = RUNNING" "ticks s < ticklimit s" "divider k \<le> Suc (cntr s)"
    and "ticklimit s < 2 ^ ticks_width k"
  shows "polynomal_step k s =
           s\<lparr>counter_d := foldl (delay s) (counter_d s) [0..<motors k],
             dir := foldl (direction s) (dir s) [0..<motors k],
             ticks := Suc (ticks s), cntr := 0,
             cntrs := foldl (advance k (coeff s) (cntrs s)) (cntrs s) [0..<motors k]\<rparr>"
proof -
  from assms(2,4) have "Suc (ticks s) < 2 ^ ticks_width k" by simp
  then have "take_bit (ticks_width k) (Suc (ticks s)) = Suc (ticks s)"
    by (simp add: take_bit_nat_eq_self)
  moreover from assms(3) have "int (divider k) - 1 \<le> int (cntr s)" by simp
  ultimately show ?thesis using assms(1,2)
    by (simp add: polynomal_step_def Let_def)
qed

lemma running_finish:
  assumes "polynomen_state s = RUNNING" "\<not> ticks s < ticklimit s"
  shows "polynomal_step k s =
           s\<lparr>counter_d := foldl (delay s) (counter_d s) [0..<motors k],
             dir := foldl (direction s) (dir s) [0..<motors k],
             ticks := 0, busy := False, finished := True, polynomen_state := WAIT_START\<rparr>"
  using assms by (simp add: polynomal_step_def Let_def)

text \<open>Counting the clock edges between two real-time ticks leaves the move untouched.\<close>

lemma count_phase:
  assumes "polynomen_state s = RUNNING" "ticks s < ticklimit s"
    and "cntr s + j = max 1 (divider k) - 1"
  shows "polynomen_state (polynomal_run k j s) = RUNNING
       \<and> ticks (polynomal_run k j s) = ticks s
       \<and> ticklimit (polynomal_run k j s) = ticklimit s
       \<and> coeff (polynomal_run k j s) = coeff s
       \<and> cntrs (polynomal_run k j s) = cntrs s
       \<and> cntr (polynomal_run k j s) = max 1 (divider k) - 1"
  using assms
proof (induction j arbitrary: s)
  case 0
  then show ?case by simp
next
  case (Suc j)
  from Suc.prems(3) have lt: "Suc (cntr s) < divider k" by (simp add: max_def split: if_splits)
  note st = running_count [OF Suc.prems(1,2) lt]
  have "polynomen_state (polynomal_step k s) = RUNNING"
    "ticks (polynomal_step k s) < ticklimit (polynomal_step k s)"
    "cntr (polynomal_step k s) + j = max 1 (divider k) - 1"
    using Suc.prems by (simp_all add: st)
  from Suc.IH [OF this] show ?case by (simp add: st)
qed

text \<open>One real-time tick: \<open>max 1 divider\<close> clock edges from a cleared prescaler.\<close>

lemma one_tick:
  assumes "polynomen_state s = RUNNING" "ticks s < ticklimit s" "cntr s = 0"
    and "ticklimit s < 2 ^ ticks_width k"
  shows "polynomen_state (polynomal_run k (max 1 (divider k)) s) = RUNNING
       \<and> ticks (polynomal_run k (max 1 (divider k)) s) = Suc (ticks s)
       \<and> ticklimit (polynomal_run k (max 1 (divider k)) s) = ticklimit s
       \<and> coeff (polynomal_run k (max 1 (divider k)) s) = coeff s
       \<and> cntr (polynomal_run k (max 1 (divider k)) s) = 0
       \<and> cntrs (polynomal_run k (max 1 (divider k)) s) =
           foldl (advance k (coeff s) (cntrs s)) (cntrs s) [0..<motors k]"
proof -
  define j where "j = max 1 (divider k) - 1"
  define t where "t = polynomal_run k j s"
  have run: "polynomal_run k (max 1 (divider k)) s = polynomal_step k t"
    using polynomal_run_Suc_right [of k j s] by (simp add: j_def t_def)
  from assms(3) have "cntr s + j = max 1 (divider k) - 1" by (simp add: j_def)
  from count_phase [OF assms(1,2) this]
  have t: "polynomen_state t = RUNNING" "ticks t = ticks s" "ticklimit t = ticklimit s"
    "coeff t = coeff s" "cntrs t = cntrs s" "cntr t = max 1 (divider k) - 1"
    by (simp_all add: t_def)
  have "divider k \<le> Suc (cntr t)" by (simp add: t)
  moreover have "ticks t < ticklimit t" "ticklimit t < 2 ^ ticks_width k"
    using assms(2,4) t by simp_all
  ultimately have st: "polynomal_step k t =
           t\<lparr>counter_d := foldl (delay t) (counter_d t) [0..<motors k],
             dir := foldl (direction t) (dir t) [0..<motors k],
             ticks := Suc (ticks t), cntr := 0,
             cntrs := foldl (advance k (coeff t) (cntrs t)) (cntrs t) [0..<motors k]\<rparr>"
    using t(1) by (intro running_tick)
  show ?thesis unfolding run st by (simp add: t)
qed



lemma n_ticks:
  assumes "polynomen_state s = RUNNING" "ticks s = 0" "cntr s = 0"
    and "ticklimit s < 2 ^ ticks_width k" "n \<le> ticklimit s"
    and "m < motors k" "m * 3 + 2 < length (cntrs s)"
    and "cntrs s ! (m * 3) = 0" "cntrs s ! (m * 3 + 1) = 0" "cntrs s ! (m * 3 + 2) = 0"
    and "a = coeff s ! (m * 3)" and "b = coeff s ! (m * 3 + 1)"
    and "c = coeff s ! (m * 3 + 2)"
    and "s' = polynomal_run k (n * max 1 (divider k)) s"
  shows "polynomen_state s' = RUNNING \<and> ticks s' = n \<and> cntr s' = 0
       \<and> ticklimit s' = ticklimit s \<and> coeff s' = coeff s
       \<and> length (cntrs s') = length (cntrs s)
       \<and> cntrs s' ! (m * 3) = signed_take_bit (max_bits k) (cubic a b c n)
       \<and> cntrs s' ! (m * 3 + 1) =
           signed_take_bit (max_bits k) (3 * c * int n * (int n - 1) + 2 * b * int n)
       \<and> cntrs s' ! (m * 3 + 2) = signed_take_bit (max_bits k) (6 * c * int n)"
  using assms(5,14)
proof (induction n arbitrary: s')
  case 0
  with assms(1-4,6-10) show ?case by (simp add: cubic_def)
next
  case (Suc n)
  define t where "t = polynomal_run k (n * max 1 (divider k)) s"
  from Suc.prems have "n \<le> ticklimit s" by simp
  from Suc.IH [OF this t_def]
  have t: "polynomen_state t = RUNNING" "ticks t = n" "cntr t = 0"
    "ticklimit t = ticklimit s" "coeff t = coeff s" "length (cntrs t) = length (cntrs s)"
    "cntrs t ! (m * 3) = signed_take_bit (max_bits k) (cubic a b c n)"
    "cntrs t ! (m * 3 + 1) =
       signed_take_bit (max_bits k) (3 * c * int n * (int n - 1) + 2 * b * int n)"
    "cntrs t ! (m * 3 + 2) = signed_take_bit (max_bits k) (6 * c * int n)"
    by blast+
  have run: "s' = polynomal_run k (max 1 (divider k)) t"
    using polynomal_run_add [of k "n * max 1 (divider k)" "max 1 (divider k)" s] Suc.prems(2)
    by (simp add: t_def add.commute)
  have lt: "ticks t < ticklimit t" using Suc.prems t by simp
  have w: "ticklimit t < 2 ^ ticks_width k" using assms(4) t by simp
  from one_tick [OF t(1) lt t(3) w]
  have s': "polynomen_state s' = RUNNING" "ticks s' = Suc n" "ticklimit s' = ticklimit s"
    "coeff s' = coeff s" "cntr s' = 0"
    "cntrs s' = foldl (advance k (coeff s) (cntrs t)) (cntrs t) [0..<motors k]"
    unfolding run [symmetric] t(2,4,5) by blast+
  have len: "m * 3 + 2 < length (cntrs t)" using assms(7) t by simp
  note ac = advance_counters [OF assms(6) len, of k "coeff s"]
  have c1: "cntrs s' ! (m * 3) = signed_take_bit (max_bits k) (cubic a b c (Suc n))"
    unfolding s'(6) ac t(7,8,9) cubic_Suc assms(11,12,13) by (rule stb_sum3)
  have "3 * c * int (Suc n) * (int (Suc n) - 1) + 2 * b * int (Suc n) =
      6 * c * int n + 2 * b + (3 * c * int n * (int n - 1) + 2 * b * int n)"
    by (simp add: algebra_simps)
  then have c2: "cntrs s' ! (m * 3 + 1) =
     signed_take_bit (max_bits k) (3 * c * int (Suc n) * (int (Suc n) - 1) + 2 * b * int (Suc n))"
    unfolding s'(6) ac t(7,8,9) assms(11,12,13) by (simp only: stb_sum2)
  have "6 * c * int (Suc n) = 6 * c + 6 * c * int n"
    by (simp add: algebra_simps)
  then have c3: "cntrs s' ! (m * 3 + 2) = signed_take_bit (max_bits k) (6 * c * int (Suc n))"
    unfolding s'(6) ac t(7,8,9) assms(11,12,13) by (simp only: stb_add_right)
  have "length (cntrs s') = length (cntrs s)" by (simp add: s'(6) t(6))
  with s' c1 c2 c3 show ?case by simp
qed

section \<open>The width of the step count\<close>

lemma bit_length_le: "n < 2 ^ w \<Longrightarrow> bit_length n \<le> w"
proof (induction n arbitrary: w rule: bit_length.induct)
  case (1 n)
  show ?case
  proof (cases "n = 0")
    case True then show ?thesis by (simp add: bit_length.simps)
  next
    case False
    with "1.prems" obtain v where w: "w = Suc v" by (cases w) auto
    with "1.prems" have "n div 2 < 2 ^ v" by auto
    with 1 False have "bit_length (n div 2) \<le> v" by simp
    with False w show ?thesis by (simp add: bit_length.simps [of n])
  qed
qed

lemma max_bits_le: "max_bits k \<le> bit_length (max_steps k) + BIT_SHIFT k"
proof -
  have "max_steps k * 2 ^ BIT_SHIFT k < 2 ^ bit_length (max_steps k) * 2 ^ BIT_SHIFT k"
    using less_exp_bit_length [of "max_steps k"] by simp
  then show ?thesis
    unfolding max_bits_def by (intro bit_length_le) (simp add: push_bit_eq_mult power_add)
qed

lemma int_div_bounds:
  fixes x L B :: int
  assumes "0 < B" "- (L * B) \<le> x" "x < L * B"
  shows "- L \<le> x div B" "x div B < L"
proof -
  have "0 \<le> (x + L * B) div B"
    using pos_imp_zdiv_nonneg_iff [OF assms(1), of "x + L * B"] assms(2) by simp
  with div_mult_self1 [of B x L] assms(1) show "- L \<le> x div B" by simp
  have "(x + (- L) * B) div B < 0"
    using pos_imp_zdiv_neg_iff [OF assms(1), of "x + (- L) * B"] assms(3) by simp
  with div_mult_self1 [of B x "- L"] assms(1) show "x div B < L" by simp
qed

lemma totalsteps_fits:
  fixes x :: int
  assumes "- (2 ^ max_bits k) \<le> x" "x < 2 ^ max_bits k"
  shows "signed_take_bit (bit_length (max_steps k)) (drop_bit (BIT_SHIFT k + 1) x) =
         drop_bit (BIT_SHIFT k + 1) x"
proof -
  let ?L = "2 ^ bit_length (max_steps k) :: int" and ?B = "2 ^ (BIT_SHIFT k + 1) :: int"
  have "(2::int) ^ max_bits k \<le> 2 ^ (bit_length (max_steps k) + BIT_SHIFT k)"
    by (rule power_increasing [OF max_bits_le]) simp
  also have "\<dots> \<le> ?L * ?B" by (simp add: power_add)
  finally have le: "(2::int) ^ max_bits k \<le> ?L * ?B" .
  have "- ?L \<le> x div ?B" "x div ?B < ?L"
    using assms le by (intro int_div_bounds; simp)+
  then show ?thesis
    by (simp add: signed_take_bit_int_eq_self drop_bit_eq_div)
qed

section \<open>The displacement of a move\<close>

lemma example_widths:
  "max_bits example = 53" "ticks_width example = 14"
  by (simp_all add: max_bits_def ticks_width_def max_steps_def example_def bit_length.simps)


lemma first_move_eq:
  "first_move =
  \<lparr>polynomen_state = RUNNING, coeff = [2 ^ 41, 0, 0, 0, 0, 0, 0, 0, 0], start = True,
      ticklimit = 4, busy = True, finished = False, dir = [False, False, False],
      cntr = 0, cntrs = [0, 0, 0, 0, 0, 0, 0, 0, 0], ticks = 0, counter_d = [0, 0, 0]\<rparr>"
  by (simp add: first_move_def polynomal_reset_def polynomal_step_def example_def order_def Let_def
      numeral_2_eq_2 upt_rec delay_def direction_def clear_cntrs_def clear_counter_d_def
      numeral_3_eq_3)

lemma example_fields:
  "motors example = 3" "divider example = 50" "BIT_SHIFT example = 40"
  by (simp_all add: example_def)



text \<open>
  C1.  A move that enters \<^verbatim>\<open>RUNNING\<close> with the three counters of an axis cleared, a
  cleared tick counter and prescaler, and the tick limit \<open>T\<close>, is over after
  \<open>T\<close> real-time ticks of \<open>max 1 divider\<close> clock edges each and one more edge: the
  integrator is back in \<^verbatim>\<open>WAIT_START\<close> with \<^verbatim>\<open>finished\<close> raised.  If the value of
  \<open>a\<cdot>T + b\<cdot>T\<^sup>2 + c\<cdot>T\<^sup>3\<close> fits the signed width of the counters, the position counter of
  the axis then holds exactly that value, and \<^verbatim>\<open>totalsteps\<close> is that value shifted right by
  \<^verbatim>\<open>BIT_SHIFT + 1\<close>.
\<close>

theorem move_displacement:
  assumes "polynomen_state s = RUNNING" "ticks s = 0" "cntr s = 0"
    and "ticklimit s = T" "T < 2 ^ ticks_width k"
    and "motor < motors k" "motor * order + 2 < length (cntrs s)"
    and "cntrs s ! (motor * order) = 0" "cntrs s ! (motor * order + 1) = 0"
      "cntrs s ! (motor * order + 2) = 0"
    and "a = coeff s ! (motor * order)" "b = coeff s ! (motor * order + 1)"
      "c = coeff s ! (motor * order + 2)"
    and "- (2 ^ max_bits k) \<le> cubic a b c T" "cubic a b c T < 2 ^ max_bits k"
    and "s' = polynomal_run k (T * max 1 (divider k) + 1) s"
  shows "polynomen_state s' = WAIT_START \<and> finished s' \<and> \<not> busy s'
       \<and> cntrs s' ! (motor * order) = cubic a b c T
       \<and> totalsteps k s' motor = drop_bit (BIT_SHIFT k + 1) (cubic a b c T)"
proof -
  define t where "t = polynomal_run k (T * max 1 (divider k)) s"
  have "T \<le> ticklimit s" using assms(4) by simp
  from n_ticks [OF assms(1-3) _ this assms(6), of a b c t] assms(4,5,7-13)
  have t: "polynomen_state t = RUNNING" "ticks t = T" "ticklimit t = T"
    "cntrs t ! (motor * 3) = signed_take_bit (max_bits k) (cubic a b c T)"
    by (simp_all add: order_def t_def)
  have s': "s' = polynomal_step k t"
    using polynomal_run_Suc_right [of k "T * max 1 (divider k)" s] assms(16)
    by (simp add: t_def)
  have "\<not> ticks t < ticklimit t" by (simp add: t)
  note fin = running_finish [OF t(1) this, of k]
  have pos: "cntrs s' ! (motor * order) = cubic a b c T"
    unfolding s' fin using t(4) assms(14,15)
    by (simp add: order_def signed_take_bit_int_eq_self)
  moreover have "totalsteps k s' motor = drop_bit (BIT_SHIFT k + 1) (cubic a b c T)"
    unfolding totalsteps_def pos using assms(14,15) by (rule totalsteps_fits)
  moreover have "polynomen_state s' = WAIT_START" "finished s'" "\<not> busy s'"
    unfolding s' fin by simp_all
  ultimately show ?thesis by simp
qed


theorem move_displacement_witness:
  "polynomen_state first_move = RUNNING \<and> ticks first_move = 0 \<and> cntr first_move = 0
   \<and> ticklimit first_move = 4 \<and> (4::nat) < 2 ^ ticks_width example
   \<and> cntrs first_move ! 0 = 0 \<and> cntrs first_move ! 1 = 0 \<and> cntrs first_move ! 2 = 0
   \<and> coeff first_move ! 0 = 2 ^ 41 \<and> coeff first_move ! 1 = 0 \<and> coeff first_move ! 2 = 0
   \<and> cubic (2 ^ 41) 0 0 4 < 2 ^ max_bits example
   \<and> polynomen_state (polynomal_run example 201 first_move) = WAIT_START
   \<and> finished (polynomal_run example 201 first_move)
   \<and> cntrs (polynomal_run example 201 first_move) ! 0 = 2 ^ 43
   \<and> totalsteps example (polynomal_run example 201 first_move) 0 = 4"
proof -
  have h: "polynomen_state first_move = RUNNING" "ticks first_move = 0" "cntr first_move = 0"
    "ticklimit first_move = 4" "(4::nat) < 2 ^ ticks_width example"
    "0 < motors example" "0 * order + 2 < length (cntrs first_move)"
    "cntrs first_move ! (0 * order) = 0" "cntrs first_move ! (0 * order + 1) = 0"
    "cntrs first_move ! (0 * order + 2) = 0"
    "2 ^ 41 = coeff first_move ! (0 * order)" "0 = coeff first_move ! (0 * order + 1)"
    "0 = coeff first_move ! (0 * order + 2)"
    "- (2 ^ max_bits example) \<le> cubic (2 ^ 41) 0 0 4"
    "cubic (2 ^ 41) 0 0 4 < 2 ^ max_bits example"
    by (simp_all add: first_move_eq example_widths example_fields cubic_def)
  have v: "4 * max 1 (divider example) + 1 = 201" "0 * order = 0"
    "cubic (2 ^ 41) 0 0 4 = 2 ^ 43"
    "drop_bit (BIT_SHIFT example + 1) (2 ^ 43 :: int) = 4"
    by (simp_all add: cubic_def example_fields drop_bit_eq_div)
  have g: "cntrs first_move ! 0 = 0" "cntrs first_move ! 1 = 0" "cntrs first_move ! 2 = 0"
    "coeff first_move ! 0 = 2 ^ 41" "coeff first_move ! 1 = 0" "coeff first_move ! 2 = 0"
    by (simp_all add: first_move_eq)
  note r = move_displacement [OF h refl, unfolded v]
  from h(1-5,15) g r show ?thesis unfolding v by blast
qed

section \<open>Evaluating the integrator on concrete moves\<close>

lemma fast_fields:
  "motors fast = 3" "divider fast = 1" "BIT_SHIFT fast = 40"
  by (simp_all add: fast_def example_def)

lemma fast_widths:
  "max_bits fast = 53" "ticks_width fast = 14" "range_width (divider fast) = 1"
  by (simp_all add: max_bits_def ticks_width_def max_steps_def range_width_def fast_def
      example_def bit_length.simps)

lemma polynomal_run_numeral:
  "polynomal_run k 1 s = polynomal_step k s"
  "polynomal_run k 2 s = polynomal_step k (polynomal_step k s)"
  "polynomal_run k 3 s = polynomal_step k (polynomal_step k (polynomal_step k s))"
  "polynomal_run k 4 s =
     polynomal_step k (polynomal_step k (polynomal_step k (polynomal_step k s)))"
  by (simp_all add: eval_nat_numeral)
lemma list_update_Cons_numeral:
  "(x # xs)[numeral v := y] = x # xs[numeral v - 1 := y]"
  by (simp add: numeral_eq_Suc)

lemma replicate_numeral:
  "replicate (numeral v) x = x # replicate (numeral v - 1) x"
  by (simp add: numeral_eq_Suc)

lemmas polynomal_eval =
  take_bit_nat_eq_self list_update_Cons_numeral replicate_numeral polynomal_step_def
  Let_def fast_fields fast_widths order_def upt_rec delay_def
  direction_def clear_cntrs_def clear_counter_d_def advance_def polynomal_reset_def



section \<open>What a start clears\<close>

text \<open>
  On \<^verbatim>\<open>start\<close> the integrator clears \<^verbatim>\<open>cntrs[coef0]\<close> and \<^verbatim>\<open>counter_d[motor]\<close> of every
  axis.  The counters at \<^verbatim>\<open>coef0 + 1\<close> and \<^verbatim>\<open>coef0 + 2\<close> are not assigned: they enter
  \<^verbatim>\<open>RUNNING\<close> as the previous move left them.
\<close>

lemma nth_foldl_clear_cntrs:
  assumes "0 < j" "j < 3"
  shows "foldl clear_cntrs acc [0..<n] ! (m * 3 + j) = acc ! (m * 3 + j)"
proof (induction n)
  case 0
  show ?case by simp
next
  case (Suc n)
  from assms have "n * 3 \<noteq> m * 3 + j" by presburger
  with Suc show ?case by (simp add: clear_cntrs_def order_def nth_upd)
qed

lemma start_keeps_differences:
  assumes "polynomen_state s = WAIT_START" "start s" "j = 1 \<or> j = 2"
  shows "polynomen_state (polynomal_step k s) = RUNNING"
    and "cntrs (polynomal_step k s) ! (motor * order + j) = cntrs s ! (motor * order + j)"
  using assms nth_foldl_clear_cntrs [of j "cntrs s" "motors k" motor]
  by (auto simp add: polynomal_step_def Let_def order_def)


lemma second_start_eq:
  "second_start =
   \<lparr>polynomen_state = WAIT_START, coeff = [1, 0, 0, 0, 0, 0, 0, 0, 0],
    start = True, ticklimit = 1, busy = False, finished = True,
    dir = [True, False, False], cntr = 0,
    cntrs = [1, 2, 0, 0, 0, 0, 0, 0, 0], ticks = 0, counter_d = [1, 0, 0]\<rparr>"
  by (simp add: second_start_def polynomal_run_numeral polynomal_eval)

lemma second_move_eq:
  "second_move =
   \<lparr>polynomen_state = RUNNING, coeff = [1, 0, 0, 0, 0, 0, 0, 0, 0],
    start = True, ticklimit = 1, busy = True, finished = False,
    dir = [True, False, False], cntr = 0,
    cntrs = [0, 2, 0, 0, 0, 0, 0, 0, 0], ticks = 0, counter_d = [0, 0, 0]\<rparr>"
  by (simp add: second_move_def second_start_eq polynomal_eval)

lemma second_move_end:
  "polynomal_run fast 2 second_move =
   \<lparr>polynomen_state = WAIT_START, coeff = [1, 0, 0, 0, 0, 0, 0, 0, 0],
    start = True, ticklimit = 1, busy = False, finished = True,
    dir = [True, False, False], cntr = 0,
    cntrs = [3, 2, 0, 0, 0, 0, 0, 0, 0], ticks = 0, counter_d = [3, 0, 0]\<rparr>"
  by (simp add: second_move_eq polynomal_run_numeral polynomal_eval)


text \<open>
  C8.  The integrator does not clear all three counters of an axis on \<^verbatim>\<open>start\<close>.  After a
  first move with \<open>b = 1\<close> and a tick limit of 1, a second move with \<open>a = 1\<close>, \<open>b = c = 0\<close>
  and the same tick limit enters \<^verbatim>\<open>RUNNING\<close> with the position counter cleared but with 2
  in the first-difference counter, and it ends with 3 in the position counter where
  \<open>a\<cdot>T + b\<cdot>T\<^sup>2 + c\<cdot>T\<^sup>3\<close> is 1: the previous move has changed the trajectory.
\<close>

theorem second_move_not_cleared:
  "polynomen_state second_start = WAIT_START \<and> start second_start
   \<and> second_move = polynomal_step fast second_start
   \<and> polynomen_state second_move = RUNNING
   \<and> cntrs second_move ! (0 * order) = 0
   \<and> cntrs second_move ! (0 * order + 1) = 2
   \<and> ticklimit second_move = 1
   \<and> coeff second_move = [1, 0, 0, 0, 0, 0, 0, 0, 0]
   \<and> polynomen_state (polynomal_run fast 2 second_move) = WAIT_START
   \<and> finished (polynomal_run fast 2 second_move)
   \<and> cntrs (polynomal_run fast 2 second_move) ! (0 * order) = 3
   \<and> cubic 1 0 0 1 = 1"
proof -
  have "polynomen_state second_start = WAIT_START" "start second_start"
    by (simp_all add: second_start_eq)
  moreover have "polynomen_state second_move = RUNNING"
    "cntrs second_move ! (0 * order) = 0" "cntrs second_move ! (0 * order + 1) = 2"
    "ticklimit second_move = 1" "coeff second_move = [1, 0, 0, 0, 0, 0, 0, 0, 0]"
    by (simp_all add: second_move_eq)
  moreover have "polynomen_state (polynomal_run fast 2 second_move) = WAIT_START"
    "finished (polynomal_run fast 2 second_move)"
    "cntrs (polynomal_run fast 2 second_move) ! (0 * order) = 3"
    by (simp_all add: second_move_end)
  moreover have "cubic 1 0 0 1 = 1" by (simp add: cubic_def)
  ultimately show ?thesis using second_move_def by blast
qed

section \<open>The step output\<close>

lemma slow_move_eq:
  "slow_move =
   \<lparr>polynomen_state = RUNNING, coeff = [2 ^ 39, 0, 0, 0, 0, 0, 0, 0, 0], start = True,
    ticklimit = 4, busy = True, finished = False, dir = [False, False, False],
    cntr = 0, cntrs = [0, 0, 0, 0, 0, 0, 0, 0, 0], ticks = 0, counter_d = [0, 0, 0]\<rparr>"
  by (simp add: slow_move_def polynomal_run_numeral polynomal_eval)

lemma slow_move_2:
  "polynomal_run fast 2 slow_move =
   \<lparr>polynomen_state = RUNNING, coeff = [2 ^ 39, 0, 0, 0, 0, 0, 0, 0, 0], start = True,
    ticklimit = 4, busy = True, finished = False, dir = [True, False, False],
    cntr = 0, cntrs = [2 ^ 40, 0, 0, 0, 0, 0, 0, 0, 0], ticks = 2,
    counter_d = [2 ^ 39, 0, 0]\<rparr>"
  by (simp add: slow_move_eq polynomal_run_numeral polynomal_eval)

lemma slow_move_3:
  "polynomal_run fast 3 slow_move =
   \<lparr>polynomen_state = RUNNING, coeff = [2 ^ 39, 0, 0, 0, 0, 0, 0, 0, 0], start = True,
    ticklimit = 4, busy = True, finished = False, dir = [True, False, False],
    cntr = 0, cntrs = [2 ^ 40 + 2 ^ 39, 0, 0, 0, 0, 0, 0, 0, 0], ticks = 3,
    counter_d = [2 ^ 40, 0, 0]\<rparr>"
  by (simp add: slow_move_eq polynomal_run_numeral polynomal_eval)


text \<open>
  C9, as stated, fails.  In the move \<open>slow_move\<close> bit \<^verbatim>\<open>BIT_SHIFT\<close> of the position counter
  is set after the second tick and after the third: between these two ticks the bit does
  not change, and the step output is true after both.
\<close>

theorem step_is_not_an_edge:
  "polynomen_state (polynomal_run fast 2 slow_move) = RUNNING
   \<and> polynomen_state (polynomal_run fast 3 slow_move) = RUNNING
   \<and> ticks (polynomal_run fast 2 slow_move) = 2
   \<and> ticks (polynomal_run fast 3 slow_move) = 3
   \<and> step fast (polynomal_run fast 3 slow_move) 0
   \<and> \<not> (step fast (polynomal_run fast 3 slow_move) 0 \<longleftrightarrow>
          bit (cntrs (polynomal_run fast 3 slow_move) ! (0 * order)) (BIT_SHIFT fast) \<noteq>
          bit (cntrs (polynomal_run fast 2 slow_move) ! (0 * order)) (BIT_SHIFT fast))"
  unfolding slow_move_2 slow_move_3
  by (simp add: step_def order_def fast_fields bit_iff_odd)


text \<open>
  C9, amended.  The step output of an axis is the level of bit \<^verbatim>\<open>BIT_SHIFT\<close> of its
  position counter, not an edge of it.  After \<open>n\<close> real-time ticks of a move that started
  from cleared counters, with \<open>a\<cdot>n + b\<cdot>n\<^sup>2 + c\<cdot>n\<^sup>3\<close> inside the counter width, the output is
  true exactly when the number of whole units of \<open>2 ^ BIT_SHIFT\<close> in that value is odd.
\<close>

theorem step_is_level:
  assumes "polynomen_state s = RUNNING" "ticks s = 0" "cntr s = 0"
    and "ticklimit s < 2 ^ ticks_width k" "n \<le> ticklimit s"
    and "motor < motors k" "motor * order + 2 < length (cntrs s)"
    and "cntrs s ! (motor * order) = 0" "cntrs s ! (motor * order + 1) = 0"
      "cntrs s ! (motor * order + 2) = 0"
    and "a = coeff s ! (motor * order)" "b = coeff s ! (motor * order + 1)"
      "c = coeff s ! (motor * order + 2)"
    and "- (2 ^ max_bits k) \<le> cubic a b c n" "cubic a b c n < 2 ^ max_bits k"
    and "s' = polynomal_run k (n * max 1 (divider k)) s"
  shows "polynomen_state s' = RUNNING \<and> ticks s' = n
       \<and> (step k s' motor \<longleftrightarrow> odd (cubic a b c n div 2 ^ BIT_SHIFT k))"
proof -
  from n_ticks [OF assms(1-6), of a b c s'] assms(7-13,16)
  have "polynomen_state s' = RUNNING" "ticks s' = n"
    "cntrs s' ! (motor * 3) = signed_take_bit (max_bits k) (cubic a b c n)"
    by (simp_all add: order_def)
  with assms(14,15) show ?thesis
    by (simp add: step_def order_def signed_take_bit_int_eq_self bit_iff_odd)
qed



theorem step_is_level_witness:
  "polynomen_state slow_move = RUNNING \<and> ticks slow_move = 0 \<and> cntr slow_move = 0
   \<and> ticklimit slow_move = 4 \<and> (4::nat) < 2 ^ ticks_width fast
   \<and> cntrs slow_move ! 0 = 0 \<and> cntrs slow_move ! 1 = 0 \<and> cntrs slow_move ! 2 = 0
   \<and> coeff slow_move ! 0 = 2 ^ 39 \<and> coeff slow_move ! 1 = 0 \<and> coeff slow_move ! 2 = 0
   \<and> cubic (2 ^ 39) 0 0 3 < 2 ^ max_bits fast
   \<and> ticks (polynomal_run fast 3 slow_move) = 3
   \<and> odd (cubic (2 ^ 39) 0 0 3 div 2 ^ BIT_SHIFT fast)
   \<and> step fast (polynomal_run fast 3 slow_move) 0"
proof -
  have h: "polynomen_state slow_move = RUNNING" "ticks slow_move = 0" "cntr slow_move = 0"
    "ticklimit slow_move < 2 ^ ticks_width fast" "3 \<le> ticklimit slow_move"
    "0 < motors fast" "0 * order + 2 < length (cntrs slow_move)"
    "cntrs slow_move ! (0 * order) = 0" "cntrs slow_move ! (0 * order + 1) = 0"
    "cntrs slow_move ! (0 * order + 2) = 0"
    "2 ^ 39 = coeff slow_move ! (0 * order)" "0 = coeff slow_move ! (0 * order + 1)"
    "0 = coeff slow_move ! (0 * order + 2)"
    "- (2 ^ max_bits fast) \<le> cubic (2 ^ 39) 0 0 3"
    "cubic (2 ^ 39) 0 0 3 < 2 ^ max_bits fast"
    by (simp_all add: slow_move_eq fast_widths fast_fields cubic_def)
  have v: "3 * max 1 (divider fast) = 3"
    by (simp add: fast_fields)
  have g: "cntrs slow_move ! 0 = 0" "cntrs slow_move ! 1 = 0" "cntrs slow_move ! 2 = 0"
    "coeff slow_move ! 0 = 2 ^ 39" "coeff slow_move ! 1 = 0" "coeff slow_move ! 2 = 0"
    "ticklimit slow_move = 4" "(4::nat) < 2 ^ ticks_width fast"
    "odd (cubic (2 ^ 39) 0 0 3 div 2 ^ BIT_SHIFT fast)"
    by (simp_all add: slow_move_eq fast_widths fast_fields cubic_def)
  note r = step_is_level [OF h refl, unfolded v]
  from h(1-3,15) g r show ?thesis by blast
qed

section \<open>The status register and the pulses of the parser\<close>

lemma bit_assign_bit:
  "bit (assign_bit n b w) m \<longleftrightarrow> (if m = n \<and> n < 8 then b else bit w m)"
  by (auto simp add: assign_bit_def bit_set_bit_iff bit_unset_bit_iff dest: bit_imp_le_length)

lemma bit_status:
  "bit (status k i s) m \<longleftrightarrow>
     (if m = STATE_DISPATCHERROR k \<and> m < 8 then dispatcherror s
      else if m = STATE_FULL k \<and> m < 8 then space_available i < words_in_move k
      else if m = STATE_PARSING k \<and> m < 8 then execute s
      else bit (state s) m)"
  by (simp add: status_def bit_assign_bit)

lemma state_step: "state (spiparser_step k i s) = status k i s"
  by (cases "parser_state s") (simp_all add: spiparser_step_def Let_def)

lemma inputs_step:
  "position (spiparser_step k i s) = position s"
  "pinstate (spiparser_step k i s) = pinstate s"
  "read_commit (spiparser_step k i s) = read_commit s"
  "read_en (spiparser_step k i s) = read_en s"
  "dispatcherror (spiparser_step k i s) = dispatcherror s"
  by (cases "parser_state s"; simp add: spiparser_step_def Let_def)+

text \<open>Outside \<^verbatim>\<open>WAIT_COMMAND\<close> no commit is pending, outside \<^verbatim>\<open>WRITE\<close> no write enable.\<close>

lemma parser_pulses:
  "parser_reachable k s \<Longrightarrow>
   (write_commit s \<longrightarrow> parser_state s = WAIT_COMMAND) \<and> (write_en s \<longrightarrow> parser_state s = WRITE)"
proof (induction rule: parser_reachable.induct)
  case parser_start
  show ?case by (simp add: spiparser_reset_def)
next
  case (parser_next s i)
  then show ?case
    by (cases "parser_state s") (simp_all add: spiparser_step_def Let_def)
next
  case (parser_driven s ps pn rc re de)
  then show ?case by simp
qed


section \<open>Evaluating the parser on concrete commands\<close>

lemma example_parser_fields:
  "WORD_BYTES example = 8" "MEMWIDTH example = 64" "STATE_PARSING example = 0"
  "STATE_FULL example = 1" "STATE_DISPATCHERROR example = 2"
  "COMMANDS_EMPTY example = 0" "COMMANDS_START example = 4" "COMMANDS_STOP example = 5"
  "COMMANDS_WRITE example = 1" "COMMANDS_READ example = 2" "COMMANDS_POSITION example = 3"
  "motors example = 3" "bytesinmove example = 80" "INSTRUCTIONS_MOVE example = 1"
  by (simp_all add: example_def)

lemma example_parser_widths:
  "words_in_move example = 10" "range_width 3 = 2" "range_width 81 = 7"
  by (simp_all add: words_in_move_def range_width_def example_def bit_length.simps)


lemmas word_eval = reply_word_def Cat_def word_reverse_def upt_rec word_cat_eq

lemmas parser_eval =
  word_eval spiparser_step_def Let_def status_def assign_bit_def set_bit_eq_or unset_bit_eq_and_not
  example_parser_fields example_parser_widths
  idle_def command_in_def word_in_def write_word_def spiparser_reset_def
  replicate_numeral take_bit_nat_eq_self

lemma partial_write_eq:
  "partial_write =
   \<lparr>position = [0, 0, 0], pinstate = 0, read_commit = False, read_en = False,
    dispatcherror = False, execute = False, state = 0, mtrcntr = 0,
    bytesreceived = 8, parser_state = WAIT_COMMAND, word_to_send = 0,
    write_en = False, write_data = 7, write_commit = False\<rparr>"
  by (simp add: partial_write_def parser_eval)


lemma last_word_eq:
  "last_word =
   \<lparr>position = [0, 0, 0], pinstate = 0, read_commit = False, read_en = False,
    dispatcherror = False, execute = False, state = 0, mtrcntr = 0,
    bytesreceived = 80, parser_state = WRITE, word_to_send = 0,
    write_en = True, write_data = 7, write_commit = False\<rparr>"
  by (simp add: last_word_def parser_eval)

lemma started_eq:
  "started =
   \<lparr>position = [0, 0, 0], pinstate = 0, read_commit = False, read_en = False,
    dispatcherror = False, execute = True, state = 1, mtrcntr = 0,
    bytesreceived = 0, parser_state = WAIT_COMMAND, word_to_send = 0,
    write_en = False, write_data = 0, write_commit = False\<rparr>"
  by (simp add: started_def parser_eval)

lemma started_read:
  "spiparser_step example (command_in (COMMANDS_READ example)) started =
   \<lparr>position = [0, 0, 0], pinstate = 0, read_commit = False, read_en = False,
    dispatcherror = False, execute = True, state = 1, mtrcntr = 0,
    bytesreceived = 0, parser_state = WAIT_COMMAND, word_to_send = 128,
    write_en = False, write_data = 0, write_commit = False\<rparr>"
  by (simp add: started_eq parser_eval)

lemma placed_eq:
  "placed =
   \<lparr>position = [10, 20, 30], pinstate = 0, read_commit = False,
    read_en = False, dispatcherror = False, execute = False, state = 0,
    mtrcntr = 0, bytesreceived = 0, parser_state = WAIT_COMMAND,
    word_to_send = 0, write_en = False, write_data = 0,
    write_commit = False\<rparr>"
  by (simp add: placed_def parser_eval)


section \<open>Committing a write\<close>

text \<open>
  C2.  In every state the parser reaches, the next clock edge raises the write commit
  exactly when the parser is in \<^verbatim>\<open>WRITE\<close> and the bytes-received counter has reached
  \<^verbatim>\<open>bytesinmove\<close>; the counter is then 0 after that edge.  Below \<^verbatim>\<open>bytesinmove\<close> the
  \<^verbatim>\<open>WRITE\<close> state raises no commit and keeps the counter, which a completed payload word
  has advanced by \<^verbatim>\<open>WORD_BYTES\<close>.
\<close>

theorem commit_when_complete:
  assumes "parser_reachable k s"
  shows "(write_commit (spiparser_step k i s) \<longleftrightarrow>
            parser_state s = WRITE \<and> bytesinmove k \<le> bytesreceived s)
       \<and> (write_commit (spiparser_step k i s) \<longrightarrow> bytesreceived (spiparser_step k i s) = 0)
       \<and> (parser_state s = WRITE \<and> bytesreceived s < bytesinmove k \<longrightarrow>
            bytesreceived (spiparser_step k i s) = bytesreceived s)
       \<and> (parser_state s = WAIT_WORD \<and> word_complete i \<longrightarrow>
            parser_state (spiparser_step k i s) = WRITE
          \<and> bytesreceived (spiparser_step k i s) =
              take_bit (range_width (bytesinmove k + 1)) (bytesreceived s + WORD_BYTES k))"
  using parser_pulses [OF assms]
  by (cases "parser_state s") (auto simp add: spiparser_step_def Let_def)

lemma parser_reachable_run:
  "parser_reachable k s \<Longrightarrow> parser_reachable k (spiparser_run k is s)"
  by (induction "is" arbitrary: s) (auto intro: parser_next)


theorem commit_when_complete_witness:
  "parser_reachable example last_word
   \<and> parser_state last_word = WRITE \<and> bytesreceived last_word = 80
   \<and> bytesinmove example = 80
   \<and> write_commit (spiparser_step example idle last_word)
   \<and> bytesreceived (spiparser_step example idle last_word) = 0"
proof -
  have r: "parser_reachable example last_word"
    unfolding last_word_def by (intro parser_reachable_run parser_start)
  from commit_when_complete [OF r, of idle] r show ?thesis
    by (simp add: last_word_eq example_parser_fields)
qed


section \<open>The position query\<close>

lemma spiparser_run_numeral:
  "spiparser_run k (replicate 1 i) s = spiparser_step k i s"
  "spiparser_run k (replicate 2 i) s = spiparser_step k i (spiparser_step k i s)"
  "spiparser_run k (replicate 3 i) s =
     spiparser_step k i (spiparser_step k i (spiparser_step k i s))"
  "spiparser_run k (replicate 4 i) s =
     spiparser_step k i (spiparser_step k i (spiparser_step k i (spiparser_step k i s)))"
  by (simp_all add: eval_nat_numeral)


text \<open>
  C6.  With three axes the round-robin counter does not wrap after the last axis: it
  counts 0, 1, 2, 3.  Four \<^verbatim>\<open>POSITION\<close> commands after reset answer with the positions of
  axes 0, 1, 2 and, the index 3 being past the end of the array, again axis 2; only the
  fifth command answers with axis 0.
\<close>

theorem position_counter_overruns:
  "mtrcntr placed = 0 \<and> position placed = [10, 20, 30] \<and> motors example = 3
   \<and> word_to_send (spiparser_run example (replicate 1 position_query) placed) = 10
   \<and> word_to_send (spiparser_run example (replicate 2 position_query) placed) = 20
   \<and> word_to_send (spiparser_run example (replicate 3 position_query) placed) = 30
   \<and> mtrcntr (spiparser_run example (replicate 3 position_query) placed) = 3
   \<and> word_to_send (spiparser_run example (replicate 4 position_query) placed) = 30
   \<and> mtrcntr (spiparser_run example (replicate 4 position_query) placed) = 0"
  by (simp add: spiparser_run_numeral placed_eq position_query_def parser_eval array_read_def)

section \<open>The FULL bit\<close>

text \<open>
  C4, as stated, fails.  With one payload word of a ten-word move received (the counter is
  at 8) and room for nine words left in the queue, the \<^verbatim>\<open>FULL\<close> bit is set by the next
  clock edge: the status register does not look at the bytes-received counter.
\<close>

theorem full_bit_ignores_counter:
  "parser_state partial_write = WAIT_COMMAND \<and> bytesreceived partial_write = 8
   \<and> words_in_move example = 10
   \<and> bit (state (spiparser_step example (idle\<lparr>space_available := 9\<rparr>) partial_write))
        (STATE_FULL example)
   \<and> \<not> (bit (state (spiparser_step example (idle\<lparr>space_available := 9\<rparr>) partial_write))
            (STATE_FULL example) \<longleftrightarrow>
          space_available (idle\<lparr>space_available := 9\<rparr>) < words_in_move example
          \<and> bytesreceived partial_write = 0)"
  by (simp add: state_step bit_status partial_write_eq example_parser_fields
      example_parser_widths)


text \<open>
  C4, amended.  After every clock edge the \<^verbatim>\<open>FULL\<close> bit of the status register tells
  whether the free space the queue reported at that edge was less than the word count of
  one move, \<^verbatim>\<open>ceil(bytesinmove/WORD_BYTES)\<close>, whether or not a partial instruction is in
  progress.  (The bit numbers of the status register lie below 8, and \<^verbatim>\<open>FULL\<close> and
  \<^verbatim>\<open>DISPATCHERROR\<close> are different bits.)
\<close>

theorem full_bit_live:
  assumes "STATE_FULL k < 8" "STATE_FULL k \<noteq> STATE_DISPATCHERROR k"
  shows "bit (state (spiparser_step k i s)) (STATE_FULL k) \<longleftrightarrow>
           space_available i < words_in_move k"
  using assms by (simp add: state_step bit_status)


theorem full_bit_live_witness:
  "STATE_FULL example < 8 \<and> STATE_FULL example \<noteq> STATE_DISPATCHERROR example
   \<and> bytesreceived partial_write = 8
   \<and> bit (state (spiparser_step example (idle\<lparr>space_available := 9\<rparr>) partial_write))
        (STATE_FULL example)
   \<and> \<not> bit (state (spiparser_step example (idle\<lparr>space_available := 10\<rparr>) partial_write))
        (STATE_FULL example)"
  using full_bit_live [of example "idle\<lparr>space_available := 9\<rparr>" partial_write]
    full_bit_live [of example "idle\<lparr>space_available := 10\<rparr>" partial_write]
  by (simp add: example_parser_fields example_parser_widths partial_write_eq)



section \<open>Accepting a WRITE command\<close>

lemma wait_command_write:
  assumes "parser_state s = WAIT_COMMAND" "command_ready i" "command i = COMMANDS_WRITE k"
    and "COMMANDS_WRITE k \<notin> {COMMANDS_EMPTY k, COMMANDS_START k, COMMANDS_STOP k}"
  shows "spiparser_step k i s =
           s\<lparr>state := status k i s, write_commit := False,
             word_to_send := take_bit (WORD_BYTES k * 8) (unat (reply_word s)),
             parser_state := (if \<not> bit (state s) (STATE_FULL k) \<or> bytesreceived s \<noteq> 0
                              then WAIT_WORD else WAIT_COMMAND)\<rparr>"
  using assms by (simp add: spiparser_step_def Let_def)

lemma wait_word_step:
  assumes "parser_state s = WAIT_WORD"
  shows "spiparser_step k i s =
           (if word_complete i
            then s\<lparr>state := status k i s, write_en := True,
                   bytesreceived :=
                     take_bit (range_width (bytesinmove k + 1)) (bytesreceived s + WORD_BYTES k),
                   write_data := take_bit (MEMWIDTH k) (word_received i),
                   parser_state := WRITE\<rparr>
            else s\<lparr>state := status k i s\<rparr>)"
  using assms by (simp add: spiparser_step_def Let_def)

lemma write_step:
  assumes "parser_state s = WRITE"
  shows "parser_state (spiparser_step k i s) = WAIT_COMMAND"
    and "\<not> write_en (spiparser_step k i s)"
  using assms by (simp_all add: spiparser_step_def Let_def)

lemma full_queue_eq:
  "full_queue =
   \<lparr>position = [0, 0, 0], pinstate = 0, read_commit = False, read_en = False,
    dispatcherror = False, execute = False, state = 2, mtrcntr = 0,
    bytesreceived = 0, parser_state = WAIT_COMMAND, word_to_send = 0,
    write_en = False, write_data = 0, write_commit = False\<rparr>"
  by (simp add: full_queue_def parser_eval)


text \<open>
  C5.  A \<^verbatim>\<open>WRITE\<close> command received in \<^verbatim>\<open>WAIT_COMMAND\<close>.  If the \<^verbatim>\<open>FULL\<close> bit is clear or
  the bytes-received counter is not zero, the parser goes to \<^verbatim>\<open>WAIT_WORD\<close> and stays there
  with the write enable low until a payload word is complete; that edge raises the write
  enable with the word as write data, and the edge after it lowers the enable again and
  returns to \<^verbatim>\<open>WAIT_COMMAND\<close>.  Otherwise the parser stays in \<^verbatim>\<open>WAIT_COMMAND\<close>: nothing is
  written, no counter or flag changes, and the status register gets its usual update.
\<close>

theorem write_gate:
  assumes "parser_reachable k s" "parser_state s = WAIT_COMMAND"
    and "command_ready i" "command i = COMMANDS_WRITE k"
    and "COMMANDS_WRITE k \<notin> {COMMANDS_EMPTY k, COMMANDS_START k, COMMANDS_STOP k}"
  defines "s1 \<equiv> spiparser_step k i s"
  shows "(\<not> bit (state s) (STATE_FULL k) \<or> bytesreceived s \<noteq> 0 \<longrightarrow>
            parser_state s1 = WAIT_WORD \<and> \<not> write_en s1
          \<and> (\<forall>j. \<not> word_complete j \<longrightarrow>
                 parser_state (spiparser_step k j s1) = WAIT_WORD
               \<and> \<not> write_en (spiparser_step k j s1))
          \<and> (\<forall>j j'. word_complete j \<longrightarrow>
                 parser_state (spiparser_step k j s1) = WRITE
               \<and> write_en (spiparser_step k j s1)
               \<and> write_data (spiparser_step k j s1) = take_bit (MEMWIDTH k) (word_received j)
               \<and> parser_state (spiparser_step k j' (spiparser_step k j s1)) = WAIT_COMMAND
               \<and> \<not> write_en (spiparser_step k j' (spiparser_step k j s1))))
       \<and> (bit (state s) (STATE_FULL k) \<and> bytesreceived s = 0 \<longrightarrow>
            parser_state s1 = WAIT_COMMAND \<and> \<not> write_en s1 \<and> \<not> write_commit s1
          \<and> bytesreceived s1 = 0 \<and> write_data s1 = write_data s
          \<and> execute s1 = execute s \<and> mtrcntr s1 = mtrcntr s
          \<and> dispatcherror s1 = dispatcherror s \<and> state s1 = status k i s)"
proof -
  from parser_pulses [OF assms(1)] assms(2) have en: "\<not> write_en s" by auto
  note s1 = wait_command_write [OF assms(2-5), folded s1_def]
  show ?thesis
  proof (intro conjI impI)
    assume "bit (state s) (STATE_FULL k) \<and> bytesreceived s = 0"
    then show "parser_state s1 = WAIT_COMMAND" "\<not> write_en s1" "\<not> write_commit s1"
      "bytesreceived s1 = 0" "write_data s1 = write_data s" "execute s1 = execute s"
      "mtrcntr s1 = mtrcntr s" "dispatcherror s1 = dispatcherror s" "state s1 = status k i s"
      using en by (simp_all add: s1)
  next
    assume a: "\<not> bit (state s) (STATE_FULL k) \<or> bytesreceived s \<noteq> 0"
    then have w: "parser_state s1 = WAIT_WORD" and e: "\<not> write_en s1"
      using en by (auto simp add: s1)
    show "parser_state s1 = WAIT_WORD" "\<not> write_en s1" by fact+
    show "\<forall>j. \<not> word_complete j \<longrightarrow>
                 parser_state (spiparser_step k j s1) = WAIT_WORD
               \<and> \<not> write_en (spiparser_step k j s1)"
      using w e by (simp add: wait_word_step)
    show "\<forall>j j'. word_complete j \<longrightarrow>
                 parser_state (spiparser_step k j s1) = WRITE
               \<and> write_en (spiparser_step k j s1)
               \<and> write_data (spiparser_step k j s1) = take_bit (MEMWIDTH k) (word_received j)
               \<and> parser_state (spiparser_step k j' (spiparser_step k j s1)) = WAIT_COMMAND
               \<and> \<not> write_en (spiparser_step k j' (spiparser_step k j s1))"
    proof (intro allI impI)
      fix j j' :: wires assume "word_complete j"
      with w have "parser_state (spiparser_step k j s1) = WRITE"
        "write_en (spiparser_step k j s1)"
        "write_data (spiparser_step k j s1) = take_bit (MEMWIDTH k) (word_received j)"
        by (simp_all add: wait_word_step)
      with write_step [of "spiparser_step k j s1" k j']
      show "parser_state (spiparser_step k j s1) = WRITE
               \<and> write_en (spiparser_step k j s1)
               \<and> write_data (spiparser_step k j s1) = take_bit (MEMWIDTH k) (word_received j)
               \<and> parser_state (spiparser_step k j' (spiparser_step k j s1)) = WAIT_COMMAND
               \<and> \<not> write_en (spiparser_step k j' (spiparser_step k j s1))"
        by simp
    qed
  qed
qed



theorem write_gate_witness:
  "parser_reachable example partial_write \<and> parser_state partial_write = WAIT_COMMAND
   \<and> bytesreceived partial_write = 8
   \<and> parser_state (spiparser_step example (command_in (COMMANDS_WRITE example)) partial_write)
       = WAIT_WORD
   \<and> write_en (spiparser_step example (word_in 7)
        (spiparser_step example (command_in (COMMANDS_WRITE example)) partial_write))
   \<and> \<not> write_en (spiparser_step example idle (spiparser_step example (word_in 7)
        (spiparser_step example (command_in (COMMANDS_WRITE example)) partial_write)))
   \<and> parser_reachable example full_queue \<and> parser_state full_queue = WAIT_COMMAND
   \<and> bit (state full_queue) (STATE_FULL example) \<and> bytesreceived full_queue = 0
   \<and> parser_state (spiparser_step example (command_in (COMMANDS_WRITE example)) full_queue)
       = WAIT_COMMAND
   \<and> \<not> write_en (spiparser_step example (command_in (COMMANDS_WRITE example)) full_queue)"
proof -
  have r: "parser_reachable example partial_write" "parser_reachable example full_queue"
    unfolding partial_write_def full_queue_def
    by (intro parser_reachable_run parser_start)+
  have c: "command_ready (command_in (COMMANDS_WRITE example))"
    "command (command_in (COMMANDS_WRITE example)) = COMMANDS_WRITE example"
    "COMMANDS_WRITE example \<notin>
       {COMMANDS_EMPTY example, COMMANDS_START example, COMMANDS_STOP example}"
    "word_complete (word_in 7)"
    by (simp_all add: command_in_def word_in_def idle_def example_parser_fields)
  have p: "parser_state partial_write = WAIT_COMMAND" "bytesreceived partial_write = 8"
    "parser_state full_queue = WAIT_COMMAND" "bit (state full_queue) (STATE_FULL example)"
    "bytesreceived full_queue = 0"
    by (simp_all add: partial_write_eq full_queue_eq example_parser_fields)
  from write_gate [OF r(1) p(1) c(1-3)] write_gate [OF r(2) p(3) c(1-3)] r c(4) p
  show ?thesis by simp
qed


section \<open>The reply word\<close>

lemma bit_reply_word:
  "bit (reply_word s) n \<longleftrightarrow>
     (if n < 8 then bit (state s) (7 - n) else n < 16 \<and> bit (pinstate s) (15 - n))"
  by (auto simp add: reply_word_def Cat_def bit_word_cat_iff bit_word_reverse_iff)


text \<open>
  C7, as stated, fails.  After a \<^verbatim>\<open>START\<close> command the status register is 1 (the
  \<^verbatim>\<open>PARSING\<close> bit) and the pins are 0; the reply to \<^verbatim>\<open>READ\<close> is the word 128.  Its low-order
  byte is the reversed status register, not the reversed pin state.
\<close>

theorem status_in_low_byte:
  "parser_state started = WAIT_COMMAND \<and> state started = 1 \<and> pinstate started = 0
   \<and> word_to_send (spiparser_step example (command_in (COMMANDS_READ example)) started) = 128
   \<and> \<not> (take_bit 8 (word_to_send
              (spiparser_step example (command_in (COMMANDS_READ example)) started)) =
          unat (word_reverse (pinstate started)))"
  unfolding started_read by (simp add: started_eq word_eval)


text \<open>
  C7, amended.  The reply to \<^verbatim>\<open>READ\<close> and to \<^verbatim>\<open>WRITE\<close> carries the bit-reversed status
  register in its low-order byte (bit \<open>n\<close> of the word is bit \<open>7 - n\<close> of the register) and
  the bit-reversed pin state in the byte above (bit \<open>n\<close> is bit \<open>15 - n\<close> of the pins);
  all higher bits are zero, and the word is cut to \<^verbatim>\<open>WORD_BYTES\<close> bytes.  A \<^verbatim>\<open>READ\<close> leaves
  the parser in \<^verbatim>\<open>WAIT_COMMAND\<close> and changes neither the execute flag, the counters nor
  the write signals of the queue.
\<close>

theorem reply_layout:
  assumes "parser_state s = WAIT_COMMAND" "command_ready i"
    and "command i = COMMANDS_READ k \<or> command i = COMMANDS_WRITE k"
    and "command i \<notin> {COMMANDS_EMPTY k, COMMANDS_START k, COMMANDS_STOP k}"
  defines "s1 \<equiv> spiparser_step k i s"
  shows "(\<forall>n. bit (word_to_send s1) n \<longleftrightarrow>
              n < WORD_BYTES k * 8 \<and>
              (if n < 8 then bit (state s) (7 - n) else n < 16 \<and> bit (pinstate s) (15 - n)))
       \<and> (command i \<noteq> COMMANDS_WRITE k \<longrightarrow>
            parser_state s1 = WAIT_COMMAND \<and> execute s1 = execute s
          \<and> bytesreceived s1 = bytesreceived s \<and> mtrcntr s1 = mtrcntr s
          \<and> write_en s1 = write_en s \<and> write_data s1 = write_data s
          \<and> \<not> write_commit s1 \<and> state s1 = status k i s
          \<and> position s1 = position s \<and> pinstate s1 = pinstate s
          \<and> read_commit s1 = read_commit s \<and> read_en s1 = read_en s
          \<and> dispatcherror s1 = dispatcherror s)"
proof -
  have "word_to_send s1 = take_bit (WORD_BYTES k * 8) (unat (reply_word s))"
    using assms(1-4) by (auto simp add: s1_def spiparser_step_def Let_def)
  then have "\<forall>n. bit (word_to_send s1) n \<longleftrightarrow>
              n < WORD_BYTES k * 8 \<and>
              (if n < 8 then bit (state s) (7 - n) else n < 16 \<and> bit (pinstate s) (15 - n))"
    by (simp add: bit_take_bit_iff bit_unsigned_iff bit_reply_word)
  moreover have "command i \<noteq> COMMANDS_WRITE k \<longrightarrow>
            parser_state s1 = WAIT_COMMAND \<and> execute s1 = execute s
          \<and> bytesreceived s1 = bytesreceived s \<and> mtrcntr s1 = mtrcntr s
          \<and> write_en s1 = write_en s \<and> write_data s1 = write_data s
          \<and> \<not> write_commit s1 \<and> state s1 = status k i s
          \<and> position s1 = position s \<and> pinstate s1 = pinstate s
          \<and> read_commit s1 = read_commit s \<and> read_en s1 = read_en s
          \<and> dispatcherror s1 = dispatcherror s"
    using assms(1-4) by (auto simp add: s1_def spiparser_step_def Let_def)
  ultimately show ?thesis by blast
qed


theorem reply_layout_witness:
  "parser_state started = WAIT_COMMAND \<and> bit (state started) 0 \<and> pinstate started = 0
   \<and> command (command_in (COMMANDS_READ example)) = COMMANDS_READ example
   \<and> bit (word_to_send (spiparser_step example (command_in (COMMANDS_READ example)) started)) 7
   \<and> \<not> bit (word_to_send (spiparser_step example (command_in (COMMANDS_READ example)) started)) 15
   \<and> execute (spiparser_step example (command_in (COMMANDS_READ example)) started) =
       execute started"
proof -
  have c: "parser_state started = WAIT_COMMAND"
    "command_ready (command_in (COMMANDS_READ example))"
    "command (command_in (COMMANDS_READ example)) = COMMANDS_READ example
     \<or> command (command_in (COMMANDS_READ example)) = COMMANDS_WRITE example"
    "command (command_in (COMMANDS_READ example)) \<notin>
       {COMMANDS_EMPTY example, COMMANDS_START example, COMMANDS_STOP example}"
    by (simp_all add: command_in_def idle_def example_parser_fields started_eq)
  have d: "bit (state started) 0" "pinstate started = 0"
    "command (command_in (COMMANDS_READ example)) = COMMANDS_READ example"
    "command (command_in (COMMANDS_READ example)) \<noteq> COMMANDS_WRITE example"
    "(7::nat) < WORD_BYTES example * 8"
    by (simp_all add: command_in_def idle_def example_parser_fields started_eq)
  from reply_layout [OF c] c(1) d show ?thesis by simp
qed

section \<open>The dispatcher\<close>

lemma length_foldl_delay [simp]: "length (foldl (delay s) acc ms) = length acc"
  by (induction ms arbitrary: acc) (simp_all add: delay_def)

lemma pol_inputs_step:
  "start (polynomal_step k q) = start q"
  "coeff (polynomal_step k q) = coeff q"
  "ticklimit (polynomal_step k q) = ticklimit q"
  by (cases "polynomen_state q"; simp add: polynomal_step_def Let_def)+

text \<open>What the dispatcher drives, after one clock edge, state by state.\<close>

lemma error_step:
  assumes "dispatcher_state d = ERROR"
  shows "dispatcher_state (dispatcher_step k i d) = ERROR"
    and "dispatcherror (parser (dispatcher_step k i d)) = dispatcherror (parser d)"
    and "read_en (parser (dispatcher_step k i d)) = read_en (parser d)"
    and "read_commit (parser (dispatcher_step k i d)) = read_commit (parser d)"
    and "start (pol (dispatcher_step k i d)) = start (pol d)"
    and "coeff (pol (dispatcher_step k i d)) = coeff (pol d)"
    and "ticklimit (pol (dispatcher_step k i d)) = ticklimit (pol d)"
  using assms by (simp_all add: dispatcher_step_def Let_def inputs_step pol_inputs_step)

lemma parsehead_error_step:
  assumes "dispatcher_state d = PARSEHEAD" "take_bit 8 (read_data i) \<noteq> INSTRUCTIONS_MOVE k"
  shows "dispatcher_state (dispatcher_step k i d) = ERROR"
    and "dispatcherror (parser (dispatcher_step k i d))"
    and "read_en (parser (dispatcher_step k i d)) = read_en (parser d)"
    and "read_commit (parser (dispatcher_step k i d)) = read_commit (parser d)"
    and "start (pol (dispatcher_step k i d)) = start (pol d)"
    and "coeff (pol (dispatcher_step k i d)) = coeff (pol d)"
    and "ticklimit (pol (dispatcher_step k i d)) = ticklimit (pol d)"
  using assms by (simp_all add: dispatcher_step_def Let_def inputs_step pol_inputs_step)

lemma status_bit_step:
  assumes "STATE_DISPATCHERROR k < 8"
  shows "bit (state (parser (dispatcher_step k i d))) (STATE_DISPATCHERROR k) \<longleftrightarrow>
         dispatcherror (parser d)"
  using assms
  by (cases "dispatcher_state d")
    (simp_all add: dispatcher_step_def Let_def state_step bit_status)

text \<open>
  Between \<^verbatim>\<open>WAIT_INSTRUCTION\<close> and the end of an instruction neither \<^verbatim>\<open>start\<close> nor the
  read commit is raised; in \<^verbatim>\<open>PARSEHEAD\<close> the read enable is; the error flag is raised in
  \<^verbatim>\<open>ERROR\<close> only; the integrator has three coefficients for each motor.
\<close>

lemma dispatcher_invariant:
  "reachable k d \<Longrightarrow>
   (dispatcher_state d \<noteq> WAIT_INSTRUCTION \<longrightarrow> \<not> start (pol d) \<and> \<not> read_commit (parser d))
   \<and> (dispatcher_state d = PARSEHEAD \<longrightarrow> read_en (parser d))
   \<and> (dispatcherror (parser d) \<longrightarrow> dispatcher_state d = ERROR)
   \<and> length (coeff (pol d)) = motors k * order"
proof (induction rule: reachable.induct)
  case start_state
  show ?case
    by (simp add: dispatcher_reset_def spiparser_reset_def polynomal_reset_def)
next
  case (next_state d i)
  then show ?case
    by (cases "dispatcher_state d")
      (simp_all add: dispatcher_step_def Let_def inputs_step pol_inputs_step)
qed

lemma error_run:
  assumes "dispatcher_state d = ERROR"
  shows "dispatcher_state (dispatcher_run k is d) = ERROR
       \<and> dispatcherror (parser (dispatcher_run k is d)) = dispatcherror (parser d)
       \<and> read_en (parser (dispatcher_run k is d)) = read_en (parser d)
       \<and> read_commit (parser (dispatcher_run k is d)) = read_commit (parser d)
       \<and> start (pol (dispatcher_run k is d)) = start (pol d)
       \<and> coeff (pol (dispatcher_run k is d)) = coeff (pol d)
       \<and> ticklimit (pol (dispatcher_run k is d)) = ticklimit (pol d)"
  using assms
proof (induction "is" arbitrary: d)
  case Nil
  then show ?case by simp
next
  case (Cons i "is")
  note st = error_step [OF Cons.prems, of k i]
  from Cons.IH [OF st(1)] show ?case
    by (simp add: st)
qed

lemma dispatcher_run_snoc:
  "dispatcher_run k (is @ [i]) d = dispatcher_step k i (dispatcher_run k is d)"
  by (induction "is" arbitrary: d) simp_all


text \<open>The status register of the parser inside the design, one clock edge on.\<close>

lemma error_status_bit:
  assumes "dispatcher_state d = ERROR" "dispatcherror (parser d)" "STATE_DISPATCHERROR k < 8"
    and "is \<noteq> []"
  shows "bit (state (parser (dispatcher_run k is d))) (STATE_DISPATCHERROR k)"
proof -
  from assms(4) obtain js j where "is = js @ [j]" by (cases "is" rule: rev_cases) auto
  moreover from error_run [OF assms(1), of k js] assms(2)
  have "dispatcherror (parser (dispatcher_run k js d))" by simp
  ultimately show ?thesis
    using assms(3) by (simp add: dispatcher_run_snoc status_bit_step)
qed


section \<open>Evaluating the design on concrete inputs\<close>

lemma reachable_run: "reachable k d \<Longrightarrow> reachable k (dispatcher_run k is d)"
  by (induction "is" arbitrary: d) (auto intro: next_state)

lemma example_dispatcher_widths:
  "range_width 50 = 6" "divider example = 50" "BIT_SHIFT example = 40"
  "range_width (Suc (Suc (Suc (Suc (Suc (Suc (Suc (Suc (Suc 0))))))))) = 4"
  by (simp_all add: range_width_def bit_length.simps example_def)

lemmas dispatcher_eval =
  dispatcher_step_def dispatcher_reset_def pins_def queued_def bad_header_def
  move_header_def coefficient_def add_steps_def
  parser_eval list_update_Cons_numeral polynomal_step_def example_widths
  example_dispatcher_widths order_def delay_def direction_def clear_cntrs_def
  clear_counter_d_def advance_def polynomal_reset_def

lemma parsing_eq:
  "parsing =
   \<lparr>parser =
    \<lparr>position = [0, 0, 0], pinstate = 0, read_commit = False,
       read_en = True, dispatcherror = False, execute = True, state = 1,
       mtrcntr = 0, bytesreceived = 0, parser_state = WAIT_COMMAND,
       word_to_send = 0, write_en = False, write_data = 0,
       write_commit = False\<rparr>,
    pol =
      \<lparr>polynomen_state = WAIT_START, coeff = [0, 0, 0, 0, 0, 0, 0, 0, 0],
         start = False, ticklimit = 0, busy = False, finished = False,
         dir = [False, False, False], cntr = 0,
         cntrs = [0, 0, 0, 0, 0, 0, 0, 0, 0], ticks = 0,
         counter_d = [0, 0, 0]\<rparr>,
    pol_finished_d = False, coeffcnt = 0, dispatcher_state = PARSEHEAD\<rparr>"
  by (simp add: parsing_def dispatcher_eval)

lemma after_bad_header:
  "dispatcher_run example [bad_header, queued, queued] parsing =
   \<lparr>parser =
    \<lparr>position = [0, 0, 0], pinstate = 0, read_commit = False,
       read_en = True, dispatcherror = True, execute = True, state = 5,
       mtrcntr = 0, bytesreceived = 0, parser_state = WAIT_COMMAND,
       word_to_send = 0, write_en = False, write_data = 0,
       write_commit = False\<rparr>,
    pol =
      \<lparr>polynomen_state = WAIT_START, coeff = [0, 0, 0, 0, 0, 0, 0, 0, 0],
         start = False, ticklimit = 0, busy = False, finished = False,
         dir = [False, False, False], cntr = 0,
         cntrs = [0, 0, 0, 0, 0, 0, 0, 0, 0], ticks = 0,
         counter_d = [0, 0, 0]\<rparr>,
    pol_finished_d = False, coeffcnt = 0, dispatcher_state = ERROR\<rparr>"
  by (simp add: parsing_eq dispatcher_eval)

lemma loaded_eq:
  "loaded =
   \<lparr>parser =
    \<lparr>position = [0, 0, 0], pinstate = 0, read_commit = False,
       read_en = True, dispatcherror = False, execute = True, state = 1,
       mtrcntr = 0, bytesreceived = 0, parser_state = WAIT_COMMAND,
       word_to_send = 0, write_en = False, write_data = 0,
       write_commit = False\<rparr>,
    pol =
      \<lparr>polynomen_state = WAIT_START, coeff = [5, 5, 5, 5, 5, 5, 5, 5, 5],
         start = False, ticklimit = 4, busy = False, finished = False,
         dir = [False, False, False], cntr = 0,
         cntrs = [0, 0, 0, 0, 0, 0, 0, 0, 0], ticks = 0,
         counter_d = [0, 0, 0]\<rparr>,
    pol_finished_d = False, coeffcnt = 9,
    dispatcher_state = MOVE_POLYNOMAL\<rparr>"
  by (simp add: loaded_def parsing_eq dispatcher_eval)


section \<open>An instruction that is no move\<close>

text \<open>
  What holds of the error path.  In every reachable state of the design, a header in
  \<^verbatim>\<open>PARSEHEAD\<close> whose low byte is not \<^verbatim>\<open>MOVE\<close> takes the dispatcher to \<^verbatim>\<open>ERROR\<close>, and after
  any further inputs it is still there: the error flag is raised (and, from the next clock
  edge on, the \<^verbatim>\<open>DISPATCHERROR\<close> bit of the status register), \<^verbatim>\<open>start\<close> and the read commit
  stay low, and the tick limit and the coefficients of the integrator keep their values.
  The last conjunct is what the error path misses: the read enable, which every other
  exit from a read of the queue lowers, is left as \<^verbatim>\<open>WAIT_INSTRUCTION\<close> raised it.
\<close>

lemma dispatch_error_is_terminal:
  fixes js :: "wires list"
  assumes "reachable k d" "dispatcher_state d = PARSEHEAD"
    and "take_bit 8 (read_data i) \<noteq> INSTRUCTIONS_MOVE k"
  defines "d' \<equiv> dispatcher_run k js (dispatcher_step k i d)"
  shows "dispatcher_state d' = ERROR \<and> dispatcherror (parser d')
       \<and> (js \<noteq> [] \<and> STATE_DISPATCHERROR k < 8 \<longrightarrow>
            bit (state (parser d')) (STATE_DISPATCHERROR k))
       \<and> \<not> start (pol d') \<and> \<not> read_commit (parser d')
       \<and> coeff (pol d') = coeff (pol d) \<and> ticklimit (pol d') = ticklimit (pol d)
       \<and> read_en (parser d')"
proof -
  note inv = dispatcher_invariant [OF assms(1)]
  note st = parsehead_error_step [OF assms(2,3)]
  note run = error_run [OF st(1), of k js, folded d'_def]
  have "js \<noteq> [] \<and> STATE_DISPATCHERROR k < 8 \<longrightarrow>
          bit (state (parser d')) (STATE_DISPATCHERROR k)"
    unfolding d'_def using error_status_bit [OF st(1,2)] by blast
  with run st inv assms(2) show ?thesis by simp
qed

lemma dispatch_error_is_terminal_example:
  "reachable example parsing \<and> dispatcher_state parsing = PARSEHEAD
   \<and> take_bit 8 (read_data bad_header) \<noteq> INSTRUCTIONS_MOVE example
   \<and> dispatcher_state (dispatcher_run example [queued, queued]
        (dispatcher_step example bad_header parsing)) = ERROR
   \<and> bit (state (parser (dispatcher_run example [queued, queued]
        (dispatcher_step example bad_header parsing)))) (STATE_DISPATCHERROR example)
   \<and> \<not> start (pol (dispatcher_run example [queued, queued]
        (dispatcher_step example bad_header parsing)))"
proof -
  have r: "reachable example parsing"
    unfolding parsing_def by (intro reachable_run start_state)
  have h: "dispatcher_state parsing = PARSEHEAD"
    "take_bit 8 (read_data bad_header) \<noteq> INSTRUCTIONS_MOVE example"
    by (simp_all add: parsing_eq bad_header_def queued_def idle_def example_parser_fields)
  have "[queued, queued] \<noteq> [] \<and> STATE_DISPATCHERROR example < 8"
    by (simp add: example_parser_fields)
  with dispatch_error_is_terminal [OF r h, of "[queued, queued]"] r h show ?thesis
    by blast
qed

text \<open>
  C3.  The dispatcher does not stop reading the queue after an instruction that is no
  move.  With \<^verbatim>\<open>START\<close> received and the queue not empty, a header with opcode 0 takes the
  dispatcher from \<^verbatim>\<open>PARSEHEAD\<close> to \<^verbatim>\<open>ERROR\<close>; two clock edges later it is still in \<^verbatim>\<open>ERROR\<close>,
  the queue still reports that it is not empty, and the read enable of the queue is still
  raised, where the \<^verbatim>\<open>MOVE\<close> path and both exits of \<^verbatim>\<open>MOVE_POLYNOMAL\<close> lower it.
\<close>

theorem read_enable_stays_raised:
  "reachable example parsing \<and> dispatcher_state parsing = PARSEHEAD
   \<and> take_bit 8 (read_data bad_header) \<noteq> INSTRUCTIONS_MOVE example
   \<and> dispatcher_state (dispatcher_run example [bad_header, queued, queued] parsing) = ERROR
   \<and> dispatcherror (parser (dispatcher_run example [bad_header, queued, queued] parsing))
   \<and> \<not> fifo_empty queued
   \<and> read_en (parser (dispatcher_run example [bad_header, queued, queued] parsing))"
proof -
  have "reachable example parsing"
    unfolding parsing_def by (intro reachable_run start_state)
  moreover have "dispatcher_state parsing = PARSEHEAD"
    "take_bit 8 (read_data bad_header) \<noteq> INSTRUCTIONS_MOVE example" "\<not> fifo_empty queued"
    by (simp_all add: parsing_eq bad_header_def queued_def idle_def example_parser_fields)
  ultimately show ?thesis
    unfolding after_bad_header by simp
qed

section \<open>The read commit\<close>

text \<open>Three times the number of motors is never a power of two.\<close>

lemma power_two_mod_three: "(2::nat) ^ j mod 3 \<noteq> 0"
proof (induction j)
  case 0
  show ?case by simp
next
  case (Suc j)
  have "(2::nat) ^ Suc j mod 3 = (2 * (2 ^ j mod 3)) mod 3"
    by (simp add: mod_mult_right_eq)
  moreover have "(2::nat) ^ j mod 3 < 3" by simp
  with Suc have "(2::nat) ^ j mod 3 = 1 \<or> (2::nat) ^ j mod 3 = 2" by linarith
  ultimately show ?case by auto
qed

lemma coeffcnt_fits:
  assumes "c < m * 3"
  shows "take_bit (range_width (m * 3)) (c + 1) = c + 1"
proof -
  from assms have pos: "0 < m * 3" by simp
  have "m * 3 \<noteq> 2 ^ range_width (m * 3)"
    using power_two_mod_three [of "range_width (m * 3)"] by (metis mod_mult_self2_is_0)
  moreover have "m * 3 - 1 < 2 ^ range_width (m * 3)"
    using pos by (rule pred_less_exp_range_width)
  ultimately have "c + 1 < 2 ^ range_width (m * 3)" using assms by simp
  then show ?thesis by (simp add: take_bit_nat_eq_self)
qed

lemma coeffcnt_bound:
  "reachable k d \<Longrightarrow> dispatcher_state d = MOVE_POLYNOMAL \<longrightarrow> coeffcnt d \<le> motors k * order"
proof (induction rule: reachable.induct)
  case start_state
  show ?case by (simp add: dispatcher_reset_def)
next
  case (next_state d i)
  note inv = dispatcher_invariant [OF next_state.hyps]
  have "take_bit (range_width (length (coeff (pol d)))) (coeffcnt d + 1) \<le> coeffcnt d + 1"
    by simp
  with next_state.IH inv show ?case
    by (cases "dispatcher_state d")
      (auto simp add: dispatcher_step_def Let_def simp del: take_bit_nat_less_eq_self)
qed


text \<open>
  C10.  In every reachable state of the design: the step from \<^verbatim>\<open>PARSEHEAD\<close> on a header
  that is no move raises no read commit, and none is raised after any further inputs;
  a clock edge raises the read commit only from \<^verbatim>\<open>MOVE_POLYNOMAL\<close> with the read enable
  raised and the coefficient counter at three times the number of motors, and that edge
  raises \<^verbatim>\<open>start\<close> as well.  The counter is cleared when the header of a move is parsed, and
  in \<^verbatim>\<open>MOVE_POLYNOMAL\<close> it advances by one exactly on the edges that store a word of the
  queue in the coefficient it points at.
\<close>

theorem read_commit_ends_a_move:
  fixes js :: "wires list" and i :: wires
  assumes "reachable k d"
  defines "d1 \<equiv> dispatcher_step k i d"
  shows "(dispatcher_state d = PARSEHEAD \<and> take_bit 8 (read_data i) \<noteq> INSTRUCTIONS_MOVE k \<longrightarrow>
            dispatcher_state d1 = ERROR \<and> \<not> read_commit (parser d1)
          \<and> \<not> read_commit (parser (dispatcher_run k js d1)))
       \<and> (read_commit (parser d1) \<longrightarrow>
            dispatcher_state d = MOVE_POLYNOMAL \<and> read_en (parser d)
          \<and> coeffcnt d = motors k * order \<and> start (pol d1)
          \<and> dispatcher_state d1 = WAIT_INSTRUCTION)
       \<and> (dispatcher_state d = PARSEHEAD \<and> take_bit 8 (read_data i) = INSTRUCTIONS_MOVE k \<longrightarrow>
            dispatcher_state d1 = MOVE_POLYNOMAL \<and> coeffcnt d1 = 0)
       \<and> (dispatcher_state d = MOVE_POLYNOMAL \<longrightarrow>
            (if read_en (parser d) \<and> coeffcnt d < motors k * order
             then coeffcnt d1 = coeffcnt d + 1
                \<and> coeff (pol d1) =
                    (coeff (pol d))[coeffcnt d := signed_take_bit 63 (int (read_data i))]
             else coeffcnt d1 = coeffcnt d \<and> coeff (pol d1) = coeff (pol d)))"
proof -
  note inv = dispatcher_invariant [OF assms(1)]
  note bound = coeffcnt_bound [OF assms(1)]
  have len: "length (coeff (pol d)) = motors k * 3" using inv by (simp add: order_def)
  have err: "dispatcher_state d = PARSEHEAD \<and> take_bit 8 (read_data i) \<noteq> INSTRUCTIONS_MOVE k \<longrightarrow>
            dispatcher_state d1 = ERROR \<and> \<not> read_commit (parser d1)
          \<and> \<not> read_commit (parser (dispatcher_run k js d1))"
  proof
    assume a: "dispatcher_state d = PARSEHEAD \<and> take_bit 8 (read_data i) \<noteq> INSTRUCTIONS_MOVE k"
    then have st: "dispatcher_state d1 = ERROR" "\<not> read_commit (parser d1)"
      using inv by (simp_all add: d1_def parsehead_error_step)
    with error_run [OF st(1), of k js]
    show "dispatcher_state d1 = ERROR \<and> \<not> read_commit (parser d1)
          \<and> \<not> read_commit (parser (dispatcher_run k js d1))"
      by simp
  qed
  have commit: "read_commit (parser d1) \<longrightarrow>
            dispatcher_state d = MOVE_POLYNOMAL \<and> read_en (parser d)
          \<and> coeffcnt d = motors k * order \<and> start (pol d1)
          \<and> dispatcher_state d1 = WAIT_INSTRUCTION"
    using inv bound
    by (cases "dispatcher_state d")
      (auto simp add: d1_def dispatcher_step_def Let_def inputs_step split: if_splits)
  have head: "dispatcher_state d = PARSEHEAD \<and> take_bit 8 (read_data i) = INSTRUCTIONS_MOVE k \<longrightarrow>
            dispatcher_state d1 = MOVE_POLYNOMAL \<and> coeffcnt d1 = 0"
    by (simp add: d1_def dispatcher_step_def Let_def)
  have load: "dispatcher_state d = MOVE_POLYNOMAL \<longrightarrow>
            (if read_en (parser d) \<and> coeffcnt d < motors k * order
             then coeffcnt d1 = coeffcnt d + 1
                \<and> coeff (pol d1) =
                    (coeff (pol d))[coeffcnt d := signed_take_bit 63 (int (read_data i))]
             else coeffcnt d1 = coeffcnt d \<and> coeff (pol d1) = coeff (pol d))"
    using coeffcnt_fits [of "coeffcnt d" "motors k"]
    by (auto simp add: d1_def dispatcher_step_def Let_def len order_def pol_inputs_step)
  from err commit head load show ?thesis by blast
qed


theorem read_commit_ends_a_move_witness:
  "reachable example loaded \<and> dispatcher_state loaded = MOVE_POLYNOMAL
   \<and> coeffcnt loaded = motors example * order
   \<and> read_commit (parser (dispatcher_step example queued loaded))
   \<and> start (pol (dispatcher_step example queued loaded))
   \<and> reachable example parsing \<and> dispatcher_state parsing = PARSEHEAD
   \<and> take_bit 8 (read_data bad_header) \<noteq> INSTRUCTIONS_MOVE example
   \<and> \<not> read_commit (parser (dispatcher_run example [queued, queued]
          (dispatcher_step example bad_header parsing)))"
proof -
  have r: "reachable example parsing"
    unfolding parsing_def by (intro reachable_run start_state)
  then have r': "reachable example loaded"
    unfolding loaded_def by (rule reachable_run)
  have h: "dispatcher_state parsing = PARSEHEAD"
    "take_bit 8 (read_data bad_header) \<noteq> INSTRUCTIONS_MOVE example"
    "dispatcher_state loaded = MOVE_POLYNOMAL" "coeffcnt loaded = motors example * order"
    by (simp_all add: parsing_eq loaded_eq bad_header_def queued_def idle_def
        example_parser_fields order_def)
  have c: "read_commit (parser (dispatcher_step example queued loaded))"
    by (simp add: loaded_eq dispatcher_eval)
  from read_commit_ends_a_move [OF r, of bad_header "[queued, queued]"]
    read_commit_ends_a_move [OF r', of queued] r r' h c
  show ?thesis by blast
qed

end
